theory Spec2Isabelle
  imports Main "HOL-Library.Multiset"
begin

section \<open>Strings and the services of the JavaScript runtime\<close>

text \<open>
  A JavaScript string is a sequence of UTF-16 code units; it is modelled as a
  \<^typ>\<open>string\<close>, one \<^typ>\<open>char\<close> for each code unit, so that \<open>length\<close> is the
  \<open>.length\<close> of the source. Every example below stays inside ASCII.
\<close>

definition startsWith :: "string \<Rightarrow> string \<Rightarrow> bool" where
  \<comment> \<open>\<open>s.startsWith(pre)\<close>\<close>
  "startsWith s pre = (take (length pre) s = pre)"

definition charAt :: "string \<Rightarrow> nat \<Rightarrow> char option" where
  \<comment> \<open>\<open>s[i]\<close>: \<open>undefined\<close> (here \<open>None\<close>) out of range\<close>
  "charAt s i = (if i < length s then Some (s ! i) else None)"

definition endsWith :: "string \<Rightarrow> string \<Rightarrow> bool" where
  \<comment> \<open>\<open>s.endsWith(suf)\<close>\<close>
  "endsWith s suf = (length suf \<le> length s \<and> drop (length s - length suf) s = suf)"

fun str_split :: "char \<Rightarrow> string \<Rightarrow> string list" where
  \<comment> \<open>\<open>s.split(c)\<close> for a one-character separator: never empty\<close>
  "str_split c [] = [[]]"
| "str_split c (x # xs) =
     (if x = c then [] # str_split c xs
      else (case str_split c xs of [] \<Rightarrow> [[x]] | s # ss \<Rightarrow> (x # s) # ss))"

fun str_join :: "string \<Rightarrow> string list \<Rightarrow> string" where
  \<comment> \<open>\<open>xs.join(sepr)\<close>\<close>
  "str_join sepr [] = []"
| "str_join sepr [x] = x"
| "str_join sepr (x # y # ys) = x @ sepr @ str_join sepr (y # ys)"

text \<open>
  The module \<open>path\<close> of Node.js is not part of the repository. The functions of the
  repository take it as a parameter, a record of the operations they call, so that
  what is proved of them holds on every platform; \<open>resolve\<close>, \<open>join\<close> and \<open>relative\<close>
  are used with two arguments only.
\<close>

record path_module =
  path_sep :: char
  path_normalize :: "string \<Rightarrow> string"
  path_isAbsolute :: "string \<Rightarrow> bool"
  path_resolve :: "string \<Rightarrow> string \<Rightarrow> string"
  path_join :: "string \<Rightarrow> string \<Rightarrow> string"
  path_relative :: "string \<Rightarrow> string \<Rightarrow> string"

subsection \<open>The POSIX instance of \<open>path\<close>\<close>

text \<open>
  For evaluation at concrete inputs: \<open>path.posix\<close> as Node.js implements it, on the
  segments between slashes. \<open>normalizeSegments\<close> is \<open>normalizeString\<close>: empty and
  \<open>.\<close> segments vanish, \<open>..\<close> removes the segment before it, and where there is none
  it is kept (relative paths) or dropped (absolute paths). The accumulator holds the
  segments kept so far, last first.
\<close>

fun normalizeSegments :: "bool \<Rightarrow> string list \<Rightarrow> string list \<Rightarrow> string list" where
  "normalizeSegments allowAboveRoot acc [] = rev acc"
| "normalizeSegments allowAboveRoot acc (s # ss) =
     (if s = [] \<or> s = ''.'' then normalizeSegments allowAboveRoot acc ss
      else if s = ''..'' then
        (case acc of
           [] \<Rightarrow> normalizeSegments allowAboveRoot (if allowAboveRoot then [''..''] else []) ss
         | t # ts \<Rightarrow>
             if t = ''..''
             then normalizeSegments allowAboveRoot (if allowAboveRoot then ''..'' # acc else acc) ss
             else normalizeSegments allowAboveRoot ts ss)
      else normalizeSegments allowAboveRoot (s # acc) ss)"

definition normalizeString :: "string \<Rightarrow> bool \<Rightarrow> string" where
  "normalizeString p allowAboveRoot =
     str_join ''/'' (normalizeSegments allowAboveRoot [] (str_split (CHR ''/'') p))"

definition posix_isAbsolute :: "string \<Rightarrow> bool" where
  "posix_isAbsolute p = (p \<noteq> [] \<and> hd p = CHR ''/'')"

definition posix_normalize :: "string \<Rightarrow> string" where
  "posix_normalize p =
     (if p = [] then ''.''
      else
        (let isAbs = (hd p = CHR ''/'');
             trailingSeparator = (last p = CHR ''/'');
             res = normalizeString p (\<not> isAbs)
         in if res = [] then (if isAbs then ''/'' else if trailingSeparator then ''./'' else ''.'')
            else (if isAbs then ''/'' else []) @ res @ (if trailingSeparator then ''/'' else [])))"

fun posix_resolve_args :: "string list \<Rightarrow> string \<times> bool \<Rightarrow> string \<times> bool" where
  \<comment> \<open>the loop of \<open>resolve\<close>, over the arguments from the last to the first, the
      working directory after them\<close>
  "posix_resolve_args [] st = st"
| "posix_resolve_args (p # ps) (resolvedPath, resolvedAbsolute) =
     (if resolvedAbsolute then (resolvedPath, resolvedAbsolute)
      else if p = [] then posix_resolve_args ps (resolvedPath, resolvedAbsolute)
      else posix_resolve_args ps (p @ ''/'' @ resolvedPath, hd p = CHR ''/''))"

definition posix_resolve_list :: "string \<Rightarrow> string list \<Rightarrow> string" where
  "posix_resolve_list cwd args =
     (case posix_resolve_args (rev args @ [cwd]) ([], False) of
        (resolvedPath, resolvedAbsolute) \<Rightarrow>
          (let res = normalizeString resolvedPath (\<not> resolvedAbsolute)
           in if resolvedAbsolute then ''/'' @ res
              else if res \<noteq> [] then res else ''.''))"

definition posix_join :: "string \<Rightarrow> string \<Rightarrow> string" where
  "posix_join a b =
     (case filter (\<lambda>arg. arg \<noteq> []) [a, b] of
        [] \<Rightarrow> ''.''
      | args \<Rightarrow> posix_normalize (str_join ''/'' args))"

fun dropCommon :: "string list \<Rightarrow> string list \<Rightarrow> string list \<times> string list" where
  "dropCommon (x # xs) (y # ys) = (if x = y then dropCommon xs ys else (x # xs, y # ys))"
| "dropCommon xs ys = (xs, ys)"

definition posix_relative :: "string \<Rightarrow> string \<Rightarrow> string \<Rightarrow> string" where
  "posix_relative cwd from to =
     (if from = to then []
      else
        (let f = normalizeSegments False [] (str_split (CHR ''/'') (posix_resolve_list cwd [from]));
             t = normalizeSegments False [] (str_split (CHR ''/'') (posix_resolve_list cwd [to]))
         in case dropCommon f t of
              (f', t') \<Rightarrow> str_join ''/'' (replicate (length f') ''..'' @ t')))"

definition posix :: "string \<Rightarrow> path_module" where
  \<comment> \<open>\<open>path\<close> on a POSIX system whose working directory is \<open>cwd\<close>\<close>
  "posix cwd =
     \<lparr> path_sep = CHR ''/'',
       path_normalize = posix_normalize,
       path_isAbsolute = posix_isAbsolute,
       path_resolve = (\<lambda>a b. posix_resolve_list cwd [a, b]),
       path_join = posix_join,
       path_relative = posix_relative cwd \<rparr>"

section \<open>Path confinement (\<open>tools/scripts\<close>)\<close>

definition isPathInScriptRoots :: "path_module \<Rightarrow> string \<Rightarrow> string list \<Rightarrow> bool" where
  "isPathInScriptRoots path absolutePath roots =
     (let normalizedPath = path_normalize path absolutePath
      in list_ex
           (\<lambda>root.
              let normalizedRoot = path_normalize path root
              in startsWith normalizedPath normalizedRoot \<and>
                 (length normalizedPath = length normalizedRoot \<or>
                  charAt normalizedPath (length normalizedRoot) = Some (path_sep path)))
           roots)"

record ResolvedPath =
  absolutePath :: string
  root :: string

text \<open>
  \<open>existsSync\<close> is the file system as \<open>fs.existsSync\<close> observes it: true of every entry
  that exists, a directory as well as a file. It never throws.
\<close>

fun resolveAgainstRoots ::
  "path_module \<Rightarrow> (string \<Rightarrow> bool) \<Rightarrow> string \<Rightarrow> string list \<Rightarrow> string list \<Rightarrow> ResolvedPath option"
where
  \<comment> \<open>the loop \<open>for (const root of roots)\<close> of \<open>resolveScriptPath\<close>, over the roots left\<close>
  "resolveAgainstRoots path existsSync filePath roots [] = None"
| "resolveAgainstRoots path existsSync filePath roots (r # rest) =
     (let resolved = path_resolve path r filePath
      in if isPathInScriptRoots path resolved roots \<and> existsSync resolved
         then Some \<lparr> absolutePath = resolved, root = r \<rparr>
         else resolveAgainstRoots path existsSync filePath roots rest)"

definition resolveScriptPath ::
  "path_module \<Rightarrow> (string \<Rightarrow> bool) \<Rightarrow> string \<Rightarrow> string list \<Rightarrow> ResolvedPath option"
where
  \<comment> \<open>\<open>null\<close> is \<open>None\<close>; \<open>root ? ... : null\<close> also rejects the root found when it is the
      empty string\<close>
  "resolveScriptPath path existsSync filePath roots =
     (if path_isAbsolute path filePath then
        (if isPathInScriptRoots path filePath roots \<and> existsSync filePath then
           (case find
                   (\<lambda>r. let normalizedRoot = path_normalize path r;
                            normalizedPath = path_normalize path filePath
                        in startsWith normalizedPath normalizedRoot)
                   roots of
              None \<Rightarrow> None
            | Some r \<Rightarrow>
                if r \<noteq> [] then Some \<lparr> absolutePath = filePath, root = r \<rparr> else None)
         else None)
      else resolveAgainstRoots path existsSync filePath roots roots)"

section \<open>Content search (\<open>tools/scripts\<close>)\<close>

record ScriptFile = ResolvedPath +
  relativePath :: string
  size_bytes :: nat

record SearchMatch =
  line :: nat
  content :: string
  context' :: "string list"

function decimal :: "nat \<Rightarrow> string" where
  \<comment> \<open>a natural number in decimal, as a template literal prints it\<close>
  "decimal n =
     (if n < 10 then [''0123456789'' ! n]
      else decimal (n div 10) @ [''0123456789'' ! (n mod 10)])"
  by pat_completeness auto
termination
  by (relation "measure (\<lambda>n. n)") auto

definition numberStr :: "int \<Rightarrow> string" where
  \<comment> \<open>\<open>`${n}`\<close> for an integer\<close>
  "numberStr n = (if n < 0 then ''-'' @ decimal (nat (- n)) else decimal (nat n))"

definition lineAt :: "string list \<Rightarrow> int \<Rightarrow> string" where
  \<comment> \<open>\<open>`${lines[j]}`\<close>: out of range the element is \<open>undefined\<close> and prints so\<close>
  "lineAt lines j = (if 0 \<le> j \<and> j < int (length lines) then lines ! nat j else ''undefined'')"

definition numbered :: "string list \<Rightarrow> int \<Rightarrow> string" where
  \<comment> \<open>\<open>`${j + 1}:\t${lines[j]}`\<close>\<close>
  "numbered lines j = numberStr (j + 1) @ [CHR '':'', CHR 0x09] @ lineAt lines j"

function contextBeforeLoop :: "string list \<Rightarrow> int \<Rightarrow> int \<Rightarrow> string list \<Rightarrow> string list" where
  \<comment> \<open>\<open>for (let j = ...; j < i; j++) contextBefore.push(...)\<close>, from \<open>j\<close> on\<close>
  "contextBeforeLoop lines i j contextBefore =
     (if j < i then contextBeforeLoop lines i (j + 1) (contextBefore @ [numbered lines j])
      else contextBefore)"
  by pat_completeness auto
termination
  by (relation "measure (\<lambda>(lines, i, j, contextBefore). nat (i - j))") auto

function contextAfterLoop :: "string list \<Rightarrow> int \<Rightarrow> int \<Rightarrow> string list \<Rightarrow> string list" where
  \<comment> \<open>\<open>for (let j = i + 1; j <= bound; j++) contextAfter.push(...)\<close>, from \<open>j\<close> on\<close>
  "contextAfterLoop lines bound j contextAfter =
     (if j \<le> bound then contextAfterLoop lines bound (j + 1) (contextAfter @ [numbered lines j])
      else contextAfter)"
  by pat_completeness auto
termination
  by (relation "measure (\<lambda>(lines, bound, j, contextAfter). nat (bound + 1 - j))") auto

definition matchAt :: "string list \<Rightarrow> int \<Rightarrow> nat \<Rightarrow> SearchMatch" where
  \<comment> \<open>the body of the \<open>if (pattern.test(lines[i]))\<close>: the match pushed for line index \<open>i\<close>\<close>
  "matchAt lines contextLines i =
     (let contextBefore = contextBeforeLoop lines (int i) (max 0 (int i - contextLines)) [];
          contextAfter =
            contextAfterLoop lines (min (int (length lines) - 1) (int i + contextLines))
              (int i + 1) []
      in \<lparr> line = i + 1,
           content = lines ! i,
           context' = contextBefore @ [numbered lines (int i)] @ contextAfter \<rparr>)"

function searchLoop ::
  "string list \<Rightarrow> (string \<Rightarrow> bool) \<Rightarrow> int \<Rightarrow> nat \<Rightarrow> SearchMatch list \<Rightarrow> SearchMatch list"
where
  \<comment> \<open>\<open>for (let i = 0; i < lines.length; i++)\<close>, from \<open>i\<close> on\<close>
  "searchLoop lines test contextLines i matches =
     (if i < length lines then
        searchLoop lines test contextLines (i + 1)
          (if test (lines ! i) then matches @ [matchAt lines contextLines i] else matches)
      else matches)"
  by pat_completeness auto
termination
  by (relation "measure (\<lambda>(lines, test, contextLines, i, matches). length lines - i)") auto

text \<open>
  \<open>readFileSync\<close> is \<open>fs.readFileSync(_, "utf-8")\<close>: the content, or \<open>None\<close> where it
  throws. \<open>test\<close> is \<open>pattern.test\<close>; the only caller builds the expression without
  flags, so that it has no \<open>lastIndex\<close> state and is a predicate on the line. The context
  radius is a JavaScript number, here an integer of either sign.
\<close>

definition searchInFile ::
  "(string \<Rightarrow> string option) \<Rightarrow> 'a ScriptFile_scheme \<Rightarrow> (string \<Rightarrow> bool) \<Rightarrow> int \<Rightarrow> SearchMatch list"
where
  "searchInFile readFileSync file test contextLines =
     (case readFileSync (absolutePath file) of
        None \<Rightarrow> []
      | Some text \<Rightarrow> searchLoop (str_split (CHR 0x0A) text) test contextLines 0 [])"

text \<open>
  A fixture for the search: a script file of ten lines \<open>l1\<close> to \<open>l10\<close>, and the test of
  the expression \<open>/^(l1|l5|l10)$/\<close>.
\<close>

definition exampleFile :: ScriptFile where
  "exampleFile = \<lparr> absolutePath = ''/proj/Script/A.as'', root = ''/proj/Script'',
                   relativePath = ''A.as'', size_bytes = 30 \<rparr>"

definition tenLines :: string where
  "tenLines =
     str_join [CHR 0x0A] [''l1'', ''l2'', ''l3'', ''l4'', ''l5'', ''l6'', ''l7'', ''l8'', ''l9'', ''l10'']"

definition ends :: "string \<Rightarrow> bool" where
  "ends s = (s = ''l1'' \<or> s = ''l5'' \<or> s = ''l10'')"

section \<open>Running a commandlet (\<open>util/commandlet\<close>)\<close>

record Captured =
  stdout :: string
  stderr :: string
  timedOut :: bool

record CommandletResult = Captured +
  exitCode :: int

definition MAX_OUTPUT_SIZE :: nat where
  "MAX_OUTPUT_SIZE = 1024 * 1024"

definition stdoutMarker :: string where
  "stdoutMarker = [CHR 0x0A] @ ''... [stdout truncated - exceeded 1MB limit]''"

definition stderrMarker :: string where
  "stderrMarker = [CHR 0x0A] @ ''... [stderr truncated - exceeded 1MB limit]''"

text \<open>
  Once \<open>spawn\<close> has returned, \<open>runCommandlet\<close> registers four handlers and a timer. Its
  state is the variables of the closure (\<open>stdout\<close>, \<open>stderr\<close>, \<open>stdoutTruncated\<close>,
  \<open>stderrTruncated\<close>, \<open>timedOut\<close>, \<open>finished\<close>) together with what the runtime keeps for
  it: whether the timer of \<open>setTimeout\<close> is still pending (\<open>timerArmed\<close>), how many times
  \<open>proc.kill("SIGKILL")\<close> was called (\<open>kills\<close>), and the values passed to \<open>resolve\<close>, in
  order (\<open>resolved\<close>). A promise settles once: its value is the first of them.
\<close>

record run_state = Captured +
  stdoutTruncated :: bool
  stderrTruncated :: bool
  finished :: bool
  timerArmed :: bool
  kills :: nat
  resolved :: "CommandletResult list"

definition initial :: run_state where
  \<comment> \<open>after \<open>spawn\<close> and \<open>setTimeout\<close>, before any event\<close>
  "initial =
     \<lparr> stdout = [], stderr = [], timedOut = False,
       stdoutTruncated = False, stderrTruncated = False, finished = False,
       timerArmed = True, kills = 0, resolved = [] \<rparr>"

definition onTimeout :: "run_state \<Rightarrow> run_state" where
  \<comment> \<open>the callback given to \<open>setTimeout\<close>\<close>
  "onTimeout s =
     (if \<not> finished s then s\<lparr> timedOut := True, kills := kills s + 1 \<rparr> else s)"

definition onStdoutData :: "run_state \<Rightarrow> string \<Rightarrow> run_state" where
  \<comment> \<open>\<open>proc.stdout.on("data", ...)\<close>; \<open>chunk\<close> is \<open>data.toString()\<close>\<close>
  "onStdoutData s chunk =
     (if length (stdout s) < MAX_OUTPUT_SIZE then
        (let remaining = MAX_OUTPUT_SIZE - length (stdout s)
         in if length chunk > remaining
            then s\<lparr> stdout := (stdout s @ take remaining chunk) @ stdoutMarker,
                    stdoutTruncated := True \<rparr>
            else s\<lparr> stdout := stdout s @ chunk \<rparr>)
      else s)"

definition onStderrData :: "run_state \<Rightarrow> string \<Rightarrow> run_state" where
  \<comment> \<open>\<open>proc.stderr.on("data", ...)\<close>\<close>
  "onStderrData s chunk =
     (if length (stderr s) < MAX_OUTPUT_SIZE then
        (let remaining = MAX_OUTPUT_SIZE - length (stderr s)
         in if length chunk > remaining
            then s\<lparr> stderr := (stderr s @ take remaining chunk) @ stderrMarker,
                    stderrTruncated := True \<rparr>
            else s\<lparr> stderr := stderr s @ chunk \<rparr>)
      else s)"

definition onClose :: "run_state \<Rightarrow> int option \<Rightarrow> run_state" where
  \<comment> \<open>\<open>proc.on("close", ...)\<close>; \<open>code\<close> is \<open>null\<close> (here \<open>None\<close>) for a process ended by a
      signal; \<open>clearTimeout\<close> disarms the timer\<close>
  "onClose s code =
     (let exitCode = (case code of None \<Rightarrow> - 1 | Some c \<Rightarrow> c)
      in s\<lparr> finished := True, timerArmed := False,
              resolved := resolved s @
                [\<lparr> stdout = stdout s, stderr = stderr s, timedOut = timedOut s,
                    exitCode = exitCode \<rparr>] \<rparr>)"

definition onError :: "run_state \<Rightarrow> string \<Rightarrow> run_state" where
  \<comment> \<open>\<open>proc.on("error", ...)\<close>; \<open>message\<close> is \<open>err.message\<close>\<close>
  "onError s message =
     s\<lparr> finished := True, timerArmed := False,
         resolved := resolved s @
           [\<lparr> stdout = stdout s,
               stderr = stderr s @ [CHR 0x0A] @ ''Spawn error: '' @ message,
               timedOut = False, exitCode = - 1 \<rparr>] \<rparr>"

text \<open>
  The events the runtime delivers. JavaScript runs each handler to completion before the
  next one starts, so a run is a sequence of events, and every order in which the
  process and the timer can act is one such sequence. The timer fires at most once, and
  not after \<open>clearTimeout\<close>.
\<close>

datatype event =
    StdoutData string
  | StderrData string
  | TimerFired
  | Close "int option"
  | Error string

fun step :: "run_state \<Rightarrow> event \<Rightarrow> run_state" where
  "step s (StdoutData chunk) = onStdoutData s chunk"
| "step s (StderrData chunk) = onStderrData s chunk"
| "step s TimerFired = (if timerArmed s then onTimeout (s\<lparr> timerArmed := False \<rparr>) else s)"
| "step s (Close code) = onClose s code"
| "step s (Error message) = onError s message"

definition run :: "event list \<Rightarrow> run_state" where
  "run events = foldl step initial events"

text \<open>
  \<open>spawn\<close> is \<open>child_process.spawn\<close>, which is not part of the repository: it returns a
  child process, or it throws before it returns. Node.js throws for a file name that is
  the empty string, and for a launch that fails with an error other than \<open>EACCES\<close>,
  \<open>EAGAIN\<close>, \<open>EMFILE\<close>, \<open>ENFILE\<close> and \<open>ENOENT\<close>; a launch that fails with one of these
  five returns a child process that emits \<open>error\<close>. \<open>runCommandlet\<close> calls \<open>spawn\<close> inside
  the executor of its promise and outside any \<open>try\<close>, so a throw rejects the promise
  before a handler or the timer exists, and the events play no part. The promise is
  otherwise pending until \<open>resolve\<close> is called, and keeps the first value it is given.
  The timeout itself is not a parameter here: the firing of the timer is an event.
\<close>

datatype spawn_result = Spawned | SpawnThrows string

datatype promise = Pending | Fulfilled CommandletResult | Rejected string

definition runCommandlet ::
  "(string \<Rightarrow> string list \<Rightarrow> spawn_result) \<Rightarrow> string \<Rightarrow> string \<Rightarrow> string \<Rightarrow> string list \<Rightarrow>
     event list \<Rightarrow> promise"
where
  "runCommandlet spawn editorPath projectPath commandlet args events =
     (let cmdArgs = [projectPath, ''-run='' @ commandlet] @ args
      in case spawn editorPath cmdArgs of
           SpawnThrows message \<Rightarrow> Rejected message
         | Spawned \<Rightarrow>
             (case resolved (run events) of [] \<Rightarrow> Pending | r # _ \<Rightarrow> Fulfilled r))"

definition exampleSpawn :: "string \<Rightarrow> string list \<Rightarrow> spawn_result" where
  \<comment> \<open>\<open>spawn\<close> at the inputs used below: the empty file name is refused by a \<open>TypeError\<close>
      with the code \<open>ERR_INVALID_ARG_VALUE\<close>, thrown by the call; any other file name is
      taken to give a child process\<close>
  "exampleSpawn command cmdArgs =
     (if command = [] then SpawnThrows ''ERR_INVALID_ARG_VALUE'' else Spawned)"

fun stdoutChunk :: "event \<Rightarrow> string" where
  \<comment> \<open>what an event delivers on \<open>stdout\<close>\<close>
  "stdoutChunk (StdoutData chunk) = chunk"
| "stdoutChunk ev = []"

fun stderrChunk :: "event \<Rightarrow> string" where
  \<comment> \<open>what an event delivers on \<open>stderr\<close>\<close>
  "stderrChunk (StderrData chunk) = chunk"
| "stderrChunk ev = []"

fun isClose :: "event \<Rightarrow> bool" where
  "isClose (Close code) = True"
| "isClose ev = False"

fun isError :: "event \<Rightarrow> bool" where
  "isError (Error message) = True"
| "isError ev = False"

definition lifecycleInv :: "run_state \<Rightarrow> bool" where
  \<comment> \<open>what holds of every state reached through data, timer and close events\<close>
  "lifecycleInv s =
     (kills s \<le> 1 \<and> (timedOut s \<longleftrightarrow> kills s = 1) \<and>
      (kills s = 1 \<longrightarrow> \<not> timerArmed s) \<and> (finished s \<longrightarrow> \<not> timerArmed s) \<and>
      (resolved s \<noteq> [] \<longrightarrow> finished s) \<and>
      (\<forall>r \<in> set (resolved s). timedOut r = timedOut s))"

section \<open>Scanning for script files (\<open>util/file-scanner\<close>)\<close>

text \<open>
  The file system as the scanner observes it. A directory is the list of its entries in
  the order \<open>fs.readdirSync\<close> enumerates them, or cannot be read (\<open>readdirSync\<close> throws);
  a regular file has the size \<open>fs.statSync\<close> reports, or none where \<open>statSync\<close> throws
  (a file deleted in between); anything else (a symbolic link, a socket) is neither
  \<open>isFile()\<close> nor \<open>isDirectory()\<close>.
\<close>

datatype fs_node =
    FileNode "nat option"
  | DirNode "(string \<times> fs_node) list"
  | UnreadableDir
  | OtherNode

fun isDirectory :: "fs_node \<Rightarrow> bool" where
  "isDirectory (DirNode entries) = True"
| "isDirectory UnreadableDir = True"
| "isDirectory node = False"

fun isFile :: "fs_node \<Rightarrow> bool" where
  "isFile (FileNode sz) = True"
| "isFile node = False"

definition SKIP_DIRS :: "string list" where
  "SKIP_DIRS =
     [''node_modules'', ''.git'', ''Intermediate'', ''Saved'', ''__pycache__'', ''Binaries'',
      ''.vscode'', ''.idea'']"

definition forwardSlashes :: "string \<Rightarrow> string" where
  \<comment> \<open>\<open>.replace(/\\/g, "/")\<close>\<close>
  "forwardSlashes s = map (\<lambda>c. if c = CHR 0x5C then CHR ''/'' else c) s"

fun scanDirectory ::
  "path_module \<Rightarrow> string \<Rightarrow> string \<Rightarrow> fs_node \<Rightarrow> ScriptFile list \<Rightarrow> ScriptFile list"
and scanEntries ::
  "path_module \<Rightarrow> string \<Rightarrow> string \<Rightarrow> (string \<times> fs_node) list \<Rightarrow> ScriptFile list \<Rightarrow> ScriptFile list"
where
  \<comment> \<open>\<open>results\<close> is the accumulator the source pushes to; a directory that cannot be read
      is logged and leaves it as it is\<close>
  "scanDirectory path dir rootDir (DirNode entries) results =
     scanEntries path dir rootDir entries results"
| "scanDirectory path dir rootDir UnreadableDir results = results"
| "scanDirectory path dir rootDir (FileNode sz) results = results"
| "scanDirectory path dir rootDir OtherNode results = results"
| "scanEntries path dir rootDir [] results = results"
| "scanEntries path dir rootDir ((name, node) # rest) results =
     (let fullPath = path_join path dir name
      in if isDirectory node then
           (if name \<in> set SKIP_DIRS then scanEntries path dir rootDir rest results
            else scanEntries path dir rootDir rest (scanDirectory path fullPath rootDir node results))
         else if isFile node \<and> endsWith name ''.as'' then
           (case node of
              FileNode (Some sz) \<Rightarrow>
                scanEntries path dir rootDir rest
                  (results @
                     [\<lparr> absolutePath = fullPath, root = rootDir,
                        relativePath = forwardSlashes (path_relative path rootDir fullPath),
                        size_bytes = sz \<rparr>])
            | _ \<Rightarrow> scanEntries path dir rootDir rest results)
         else scanEntries path dir rootDir rest results)"

text \<open>
  \<open>statSync\<close> is \<open>fs.statSync\<close> on a root: what is found at the path, or \<open>None\<close> where it
  throws because nothing is there.
\<close>

fun collectScripts ::
  "path_module \<Rightarrow> (string \<Rightarrow> fs_node option) \<Rightarrow> string list \<Rightarrow> ScriptFile list \<Rightarrow> ScriptFile list"
where
  \<comment> \<open>the loop \<open>for (const root of roots)\<close> of \<open>scanForScripts\<close>\<close>
  "collectScripts path statSync [] results = results"
| "collectScripts path statSync (r # rest) results =
     (case statSync r of
        None \<Rightarrow> collectScripts path statSync rest results
      | Some stats \<Rightarrow>
          if \<not> isDirectory stats then collectScripts path statSync rest results
          else collectScripts path statSync rest (scanDirectory path r r stats results))"

text \<open>
  \<open>Array.prototype.sort\<close> with a comparison function is stable; with a consistent
  comparison its result is the sorted arrangement in which elements that compare equal
  keep their order, computed here by insertion.
\<close>

fun insertSorted :: "('a \<Rightarrow> 'a \<Rightarrow> int) \<Rightarrow> 'a \<Rightarrow> 'a list \<Rightarrow> 'a list" where
  "insertSorted compareFn x [] = [x]"
| "insertSorted compareFn x (y # ys) =
     (if compareFn x y \<le> 0 then x # y # ys else y # insertSorted compareFn x ys)"

definition array_sort :: "('a \<Rightarrow> 'a \<Rightarrow> int) \<Rightarrow> 'a list \<Rightarrow> 'a list" where
  "array_sort compareFn xs = foldr (insertSorted compareFn) xs []"

text \<open>
  \<open>localeCompare\<close> is \<open>String.prototype.localeCompare\<close>, the collation of the runtime's
  locale; the scanner takes it as a parameter.
\<close>

definition scanForScripts ::
  "path_module \<Rightarrow> (string \<Rightarrow> string \<Rightarrow> int) \<Rightarrow> (string \<Rightarrow> fs_node option) \<Rightarrow> string list
     \<Rightarrow> ScriptFile list"
where
  "scanForScripts path localeCompare statSync roots =
     array_sort (\<lambda>a b. localeCompare (relativePath a) (relativePath b))
       (collectScripts path statSync roots [])"

text \<open>
  Two comparison functions for evaluation. \<open>codePointCompare\<close> orders strings by their
  code units, the locale-naive order. \<open>collationCompare\<close> is a collation in the manner of
  \<open>localeCompare\<close>: letters are compared without regard to case first, and on a tie a
  lower-case letter comes before its upper-case form; on the file names used below it
  agrees with the root collation of ICU, which Node.js uses.
\<close>

fun codePointCompare :: "string \<Rightarrow> string \<Rightarrow> int" where
  "codePointCompare [] [] = 0"
| "codePointCompare [] (y # ys) = - 1"
| "codePointCompare (x # xs) [] = 1"
| "codePointCompare (x # xs) (y # ys) =
     (if (of_char x :: nat) < of_char y then - 1
      else if (of_char y :: nat) < of_char x then 1
      else codePointCompare xs ys)"

definition toLowerCase :: "string \<Rightarrow> string" where
  "toLowerCase s =
     map (\<lambda>c. if (65 :: nat) \<le> of_char c \<and> (of_char c :: nat) \<le> 90
              then char_of (of_char c + (32 :: nat)) else c) s"

definition collationCompare :: "string \<Rightarrow> string \<Rightarrow> int" where
  "collationCompare a b =
     (let primary = codePointCompare (toLowerCase a) (toLowerCase b)
      in if primary \<noteq> 0 then primary else - codePointCompare a b)"

definition exampleTree :: "string \<Rightarrow> fs_node option" where
  \<comment> \<open>the root \<open>/proj/Script\<close> holding \<open>B.as\<close>, \<open>a.as\<close>, a text file and a pruned directory\<close>
  "exampleTree p =
     (if p = ''/proj/Script'' then
        Some (DirNode [(''B.as'', FileNode (Some 10)),
                       (''notes.txt'', FileNode (Some 5)),
                       (''Saved'', DirNode [(''old.as'', FileNode (Some 7))]),
                       (''a.as'', FileNode (Some 20))])
      else None)"

definition exampleTwoRoots :: "string \<Rightarrow> fs_node option" where
  \<comment> \<open>the same two relative paths, \<open>a.as\<close> under a first root and \<open>B.as\<close> under a second\<close>
  "exampleTwoRoots p =
     (if p = ''/x/One'' then Some (DirNode [(''a.as'', FileNode (Some 20))])
      else if p = ''/x/Two'' then Some (DirNode [(''B.as'', FileNode (Some 10))])
      else None)"

section \<open>The search tool (\<open>as_search_scripts\<close> in \<open>tools/scripts\<close>, with \<open>config\<close>)\<close>

record Config =
  projectPath :: "string option"
  editorCmd :: "string option"
  extraScriptRoots :: "string list"
  isEngineTree :: bool

definition GAME_SCRIPT_DIRS :: "string list" where
  "GAME_SCRIPT_DIRS = [''Script'', ''Scripts'']"

definition ENGINE_SCRIPT_DIRS :: "string list" where
  "ENGINE_SCRIPT_DIRS = [''Script-Examples'', ''Script'', ''Scripts'']"

definition configured :: "Config \<Rightarrow> bool" where
  \<comment> \<open>the truth value of \<open>config.projectPath\<close>: neither \<open>null\<close> nor the empty string\<close>
  "configured config = (case projectPath config of None \<Rightarrow> False | Some p \<Rightarrow> p \<noteq> [])"

definition getScriptRoots :: "path_module \<Rightarrow> Config \<Rightarrow> string list" where
  "getScriptRoots path config =
     (let roots = extraScriptRoots config
      in if configured config then
           (let dirs = (if isEngineTree config then ENGINE_SCRIPT_DIRS else GAME_SCRIPT_DIRS)
            in roots @ map (\<lambda>dir. path_join path (the (projectPath config)) dir) dirs)
         else roots)"

text \<open>
  What the handler needs from its host: the module \<open>path\<close>, the constructor \<open>RegExp\<close>
  (the message of the \<open>SyntaxError\<close> it throws for an invalid pattern, or else the \<open>test\<close>
  of the compiled expression), \<open>localeCompare\<close>, and the file system. The handler returns
  the text of its response together with the calls it made, in order, to the two
  functions that touch the file system: \<open>scanForScripts\<close>, and through \<open>searchInFile\<close>
  the \<open>readFileSync\<close> of a file.
\<close>

record host =
  host_path :: path_module
  host_RegExp :: "string \<Rightarrow> string + (string \<Rightarrow> bool)"
  host_localeCompare :: "string \<Rightarrow> string \<Rightarrow> int"
  host_statSync :: "string \<Rightarrow> fs_node option"
  host_readFileSync :: "string \<Rightarrow> string option"

datatype fs_call = ScanForScripts "string list" | ReadFileSync string

fun pushMatches ::
  "string \<Rightarrow> int \<Rightarrow> SearchMatch list \<Rightarrow> string list \<times> int \<Rightarrow> string list \<times> int"
where
  \<comment> \<open>\<open>for (const match of matches)\<close>, on \<open>results\<close> and \<open>matchCount\<close>\<close>
  "pushMatches rel max_results [] st = st"
| "pushMatches rel max_results (m # ms) (results, matchCount) =
     (if matchCount \<ge> max_results then (results, matchCount)
      else pushMatches rel max_results ms
             (results @
                [[CHR 0x0A] @ rel @ '':'' @ numberStr (int (line m)),
                 str_join [CHR 0x0A] (context' m)],
              matchCount + 1))"

fun searchFiles ::
  "(string \<Rightarrow> string option) \<Rightarrow> (string \<Rightarrow> bool) \<Rightarrow> int \<Rightarrow> int \<Rightarrow> ScriptFile list \<Rightarrow>
     string list \<times> int \<times> fs_call list \<Rightarrow> string list \<times> int \<times> fs_call list"
where
  \<comment> \<open>\<open>for (const file of files)\<close>, on \<open>results\<close>, \<open>matchCount\<close> and the calls made\<close>
  "searchFiles readFileSync test context_lines max_results [] st = st"
| "searchFiles readFileSync test context_lines max_results (f # fs) (results, matchCount, calls) =
     (if matchCount \<ge> max_results then (results, matchCount, calls)
      else
        (let matches = searchInFile readFileSync f test context_lines
         in case pushMatches (relativePath f) max_results matches (results, matchCount) of
              (results', matchCount') \<Rightarrow>
                searchFiles readFileSync test context_lines max_results fs
                  (results', matchCount', calls @ [ReadFileSync (absolutePath f)])))"

definition as_search_scripts ::
  "host \<Rightarrow> Config \<Rightarrow> string \<Rightarrow> int \<Rightarrow> int \<Rightarrow> string \<times> fs_call list"
where
  "as_search_scripts h config pattern context_lines max_results =
     (if \<not> configured config then
        (''Error: Project path not configured. Please set the UE_AS_PROJECT_PATH environment variable.'',
         [])
      else
        (let roots = getScriptRoots (host_path h) config
         in if length roots = 0 then (''Error: No script directories configured.'', [])
            else
              (case host_RegExp h pattern of
                 Inl message \<Rightarrow> (''Error: Invalid regex pattern: '' @ message, [])
               | Inr regex \<Rightarrow>
                   (let files = scanForScripts (host_path h) (host_localeCompare h)
                                  (host_statSync h) roots
                    in case searchFiles (host_readFileSync h) regex context_lines max_results files
                              ([], 0, [ScanForScripts roots]) of
                         (results, matchCount, calls) \<Rightarrow>
                           (str_join [CHR 0x0A]
                              ([''Search pattern: '' @ pattern,
                                ''Found '' @ numberStr matchCount @ '' match(es) across '' @
                                  numberStr (int (length files)) @ '' file(s)'',
                                ''Showing up to '' @ numberStr max_results @ '' result(s)'' @
                                  [CHR 0x0A]] @
                               (if length results = 0 then [''No matches found.''] else results)),
                            calls)))))"

text \<open>
  A host for evaluation: POSIX paths, the collation above, a project at \<open>/proj\<close> whose
  directory \<open>Script\<close> holds \<open>B.as\<close> and \<open>a.as\<close>, every file with the same ten lines, and a
  \<open>RegExp\<close> that rejects the pattern \<open>(\<close> and reads any other pattern as the literal text
  to find.
\<close>

fun str_includes :: "string \<Rightarrow> string \<Rightarrow> bool" where
  \<comment> \<open>\<open>s.includes(t)\<close>\<close>
  "str_includes [] t = (t = [])"
| "str_includes (x # xs) t = (startsWith (x # xs) t \<or> str_includes xs t)"

definition exampleHost :: host where
  "exampleHost =
     \<lparr> host_path = posix ''/'',
       host_RegExp =
         (\<lambda>pattern. if pattern = ''(''
            then Inl ''Invalid regular expression: /(/: Unterminated group''
            else Inr (\<lambda>s. str_includes s pattern)),
       host_localeCompare = collationCompare,
       host_statSync = exampleTree,
       host_readFileSync = (\<lambda>p. Some tenLines) \<rparr>"

definition exampleConfig :: Config where
  "exampleConfig =
     \<lparr> projectPath = Some ''/proj'', editorCmd = None, extraScriptRoots = [],
       isEngineTree = False \<rparr>"

definition unconfigured :: Config where
  "unconfigured =
     \<lparr> projectPath = None, editorCmd = None, extraScriptRoots = [], isEngineTree = False \<rparr>"


section \<open>Properties of path confinement\<close>

lemma startsWith_append_iff: "startsWith s pre \<longleftrightarrow> (\<exists>rest. s = pre @ rest)"
  unfolding startsWith_def
  by (metis append_eq_conv_conj append_take_drop_id)

lemma charAt_append_length:
  "charAt (pre @ rest) (length pre) = (case rest of [] \<Rightarrow> None | c # _ \<Rightarrow> Some c)"
  by (cases rest) (simp_all add: charAt_def)

lemma confines_iff:
  "startsWith np nr \<and> (length np = length nr \<or> charAt np (length nr) = Some c)
   \<longleftrightarrow> (\<exists>rest. np = nr @ rest \<and> (rest = [] \<or> (\<exists>t. rest = c # t)))"
proof
  assume L: "startsWith np nr \<and> (length np = length nr \<or> charAt np (length nr) = Some c)"
  then obtain rest where r: "np = nr @ rest" by (auto simp: startsWith_append_iff)
  with L have "rest = [] \<or> (\<exists>t. rest = c # t)"
    by (cases rest) (auto simp: charAt_append_length)
  with r show "\<exists>rest. np = nr @ rest \<and> (rest = [] \<or> (\<exists>t. rest = c # t))" by blast
next
  assume "\<exists>rest. np = nr @ rest \<and> (rest = [] \<or> (\<exists>t. rest = c # t))"
  then obtain rest where r: "np = nr @ rest" and d: "rest = [] \<or> (\<exists>t. rest = c # t)"
    by blast
  from r have "startsWith np nr" by (auto simp: startsWith_append_iff)
  moreover from r d have "length np = length nr \<or> charAt np (length nr) = Some c"
    by (auto simp: charAt_append_length)
  ultimately show "startsWith np nr \<and> (length np = length nr \<or> charAt np (length nr) = Some c)"
    by blast
qed

lemma posix_fields:
  "path_normalize (posix cwd) = posix_normalize"
  "path_sep (posix cwd) = CHR ''/''"
  "path_isAbsolute (posix cwd) = posix_isAbsolute"
  by (simp_all add: posix_def)

text \<open>
  Claim C3. \<open>isPathInScriptRoots\<close> holds of a path exactly when its normalized form is
  the normalized form of some root followed by a remainder that is empty or begins with
  the path separator. A path that, for every root, continues the normalized root with a
  character other than the separator (a sibling such as \<open>/proj/Script2\<close> beside the root
  \<open>/proj/Script\<close>) is never accepted.
\<close>

theorem isPathInScriptRoots_iff:
  "(isPathInScriptRoots path p roots \<longleftrightarrow>
     (\<exists>r rest. r \<in> set roots \<and> path_normalize path p = path_normalize path r @ rest \<and>
        (rest = [] \<or> (\<exists>t. rest = path_sep path # t))))
   \<and> ((\<forall>r \<in> set roots. \<exists>c t. path_normalize path p = path_normalize path r @ c # t \<and>
                                c \<noteq> path_sep path)
        \<longrightarrow> \<not> isPathInScriptRoots path p roots)"
proof -
  have iff: "isPathInScriptRoots path p roots \<longleftrightarrow>
     (\<exists>r rest. r \<in> set roots \<and> path_normalize path p = path_normalize path r @ rest \<and>
        (rest = [] \<or> (\<exists>t. rest = path_sep path # t)))"
    unfolding isPathInScriptRoots_def Let_def list_ex_iff confines_iff by blast
  have "\<not> isPathInScriptRoots path p roots"
    if sib: "\<forall>r \<in> set roots. \<exists>c t. path_normalize path p = path_normalize path r @ c # t \<and>
                                    c \<noteq> path_sep path"
  proof
    assume "isPathInScriptRoots path p roots"
    then obtain r rest where r: "r \<in> set roots"
      and eq: "path_normalize path p = path_normalize path r @ rest"
      and d: "rest = [] \<or> (\<exists>t. rest = path_sep path # t)"
      using iff by blast
    from sib r obtain c t where eq': "path_normalize path p = path_normalize path r @ c # t"
      and c: "c \<noteq> path_sep path" by blast
    from eq eq' have "rest = c # t" by simp
    with d c show False by simp
  qed
  with iff show ?thesis by blast
qed

text \<open>
  Witness for C3, on POSIX paths: the file \<open>/proj/Script/a.as\<close> is inside the root
  \<open>/proj/Script\<close>, the sibling \<open>/proj/Script2\<close> is not.
\<close>

theorem isPathInScriptRoots_iff_witness:
  "isPathInScriptRoots (posix ''/'') ''/proj/Script/a.as'' [''/proj/Script'']
   \<and> \<not> isPathInScriptRoots (posix ''/'') ''/proj/Script2'' [''/proj/Script'']"
proof -
  have n1: "posix_normalize ''/proj/Script/a.as'' = ''/proj/Script/a.as''" by code_simp
  have n2: "posix_normalize ''/proj/Script'' = ''/proj/Script''" by code_simp
  have n3: "posix_normalize ''/proj/Script2'' = ''/proj/Script2''" by code_simp
  have a: "isPathInScriptRoots (posix ''/'') ''/proj/Script/a.as'' [''/proj/Script'']"
    using isPathInScriptRoots_iff [of "posix ''/''" "''/proj/Script/a.as''" "[''/proj/Script'']"]
    by (simp add: posix_fields n1 n2)
  have b: "\<not> isPathInScriptRoots (posix ''/'') ''/proj/Script2'' [''/proj/Script'']"
    using isPathInScriptRoots_iff [of "posix ''/''" "''/proj/Script2''" "[''/proj/Script'']"]
    by (simp add: posix_fields n2 n3)
  from a b show ?thesis by blast
qed

lemma resolveAgainstRoots_None:
  "(\<forall>r \<in> set rs. \<not> (isPathInScriptRoots path (path_resolve path r filePath) roots \<and>
                       existsSync (path_resolve path r filePath)))
   \<Longrightarrow> resolveAgainstRoots path existsSync filePath roots rs = None"
  by (induction rs) (auto simp: Let_def)

lemma resolveAgainstRoots_Some:
  "resolveAgainstRoots path existsSync filePath roots rs = Some res \<Longrightarrow>
   \<exists>pre post. rs = pre @ root res # post \<and>
     absolutePath res = path_resolve path (root res) filePath \<and>
     isPathInScriptRoots path (absolutePath res) roots \<and> existsSync (absolutePath res) \<and>
     (\<forall>r \<in> set pre. \<not> (isPathInScriptRoots path (path_resolve path r filePath) roots \<and>
                         existsSync (path_resolve path r filePath)))"
proof (induction rs)
  case Nil
  then show ?case by simp
next
  case (Cons r rs)
  show ?case
  proof (cases "isPathInScriptRoots path (path_resolve path r filePath) roots \<and>
                existsSync (path_resolve path r filePath)")
    case True
    with Cons.prems have "res = \<lparr> absolutePath = path_resolve path r filePath, root = r \<rparr>"
      by (simp add: Let_def)
    with True have "r # rs = [] @ root res # rs \<and>
        absolutePath res = path_resolve path (root res) filePath \<and>
        isPathInScriptRoots path (absolutePath res) roots \<and> existsSync (absolutePath res) \<and>
        (\<forall>r \<in> set []. \<not> (isPathInScriptRoots path (path_resolve path r filePath) roots \<and>
                         existsSync (path_resolve path r filePath)))"
      by simp
    then show ?thesis by blast
  next
    case False
    with Cons.prems have "resolveAgainstRoots path existsSync filePath roots rs = Some res"
      by (auto simp: Let_def)
    from Cons.IH [OF this] obtain pre post where
      "rs = pre @ root res # post"
      "absolutePath res = path_resolve path (root res) filePath"
      "isPathInScriptRoots path (absolutePath res) roots" "existsSync (absolutePath res)"
      "\<forall>r \<in> set pre. \<not> (isPathInScriptRoots path (path_resolve path r filePath) roots \<and>
                         existsSync (path_resolve path r filePath))"
      by blast
    with False have "r # rs = (r # pre) @ root res # post \<and>
        absolutePath res = path_resolve path (root res) filePath \<and>
        isPathInScriptRoots path (absolutePath res) roots \<and> existsSync (absolutePath res) \<and>
        (\<forall>r \<in> set (r # pre). \<not> (isPathInScriptRoots path (path_resolve path r filePath) roots \<and>
                         existsSync (path_resolve path r filePath)))"
      by simp
    then show ?thesis by blast
  qed
qed

text \<open>
  Claim C6. \<open>resolveScriptPath\<close> is a total function whose only failure value is \<open>None\<close>
  (\<open>null\<close>: neither \<open>path\<close> nor \<open>fs.existsSync\<close> throws on strings). It returns \<open>None\<close>
  whenever no candidate location is both confined and existing: for an absolute path when
  the path is missing or outside every root, for a relative path when that holds of its
  resolution against every root. With no roots the result is always \<open>None\<close>.
\<close>

theorem resolveScriptPath_NotFound:
  "(path_isAbsolute path filePath \<longrightarrow>
      \<not> (isPathInScriptRoots path filePath roots \<and> existsSync filePath) \<longrightarrow>
      resolveScriptPath path existsSync filePath roots = None)
   \<and> (\<not> path_isAbsolute path filePath \<longrightarrow>
      (\<forall>r \<in> set roots. \<not> (isPathInScriptRoots path (path_resolve path r filePath) roots \<and>
                            existsSync (path_resolve path r filePath))) \<longrightarrow>
      resolveScriptPath path existsSync filePath roots = None)
   \<and> resolveScriptPath path existsSync filePath [] = None"
proof -
  have "isPathInScriptRoots path filePath [] = False"
    by (simp add: isPathInScriptRoots_def)
  then have "resolveScriptPath path existsSync filePath [] = None"
    by (simp add: resolveScriptPath_def)
  moreover have "resolveScriptPath path existsSync filePath roots = None"
    if "path_isAbsolute path filePath"
       "\<not> (isPathInScriptRoots path filePath roots \<and> existsSync filePath)"
    using that by (auto simp: resolveScriptPath_def)
  moreover have "resolveScriptPath path existsSync filePath roots = None"
    if "\<not> path_isAbsolute path filePath"
       "\<forall>r \<in> set roots. \<not> (isPathInScriptRoots path (path_resolve path r filePath) roots \<and>
                            existsSync (path_resolve path r filePath))"
    using that by (simp add: resolveScriptPath_def resolveAgainstRoots_None)
  ultimately show ?thesis by blast
qed

text \<open>
  Witness for C6, with the root \<open>/proj/Script\<close>: a missing file inside the root and the
  existing file \<open>/etc/passwd\<close> outside it both give \<open>None\<close>, as do a relative path that
  names no existing file and any path when there are no roots.
\<close>

theorem resolveScriptPath_NotFound_witness:
  "resolveScriptPath (posix ''/'') (\<lambda>p. False) ''/proj/Script/a.as'' [''/proj/Script''] = None
   \<and> resolveScriptPath (posix ''/'') (\<lambda>p. p = ''/etc/passwd'') ''/etc/passwd'' [''/proj/Script''] = None
   \<and> resolveScriptPath (posix ''/'') (\<lambda>p. p = ''/etc/passwd'') ''../../etc/passwd'' [''/proj/Script''] = None
   \<and> resolveScriptPath (posix ''/'') (\<lambda>p. True) ''/proj/Script/a.as'' [] = None"
proof -
  have abs1: "path_isAbsolute (posix ''/'') ''/proj/Script/a.as''"
    and abs2: "path_isAbsolute (posix ''/'') ''/etc/passwd''"
    and rel3: "\<not> path_isAbsolute (posix ''/'') ''../../etc/passwd''"
    by (simp_all add: posix_fields posix_isAbsolute_def)
  have out2: "\<not> isPathInScriptRoots (posix ''/'') ''/etc/passwd'' [''/proj/Script'']"
    by code_simp
  have res3: "path_resolve (posix ''/'') ''/proj/Script'' ''../../etc/passwd'' = ''/etc/passwd''"
    by code_simp
  have a: "resolveScriptPath (posix ''/'') (\<lambda>p. False) ''/proj/Script/a.as'' [''/proj/Script''] = None"
    using resolveScriptPath_NotFound
      [of "posix ''/''" "''/proj/Script/a.as''" "[''/proj/Script'']" "\<lambda>p. False"] abs1
    by simp
  have b: "resolveScriptPath (posix ''/'') (\<lambda>p. p = ''/etc/passwd'') ''/etc/passwd''
             [''/proj/Script''] = None"
    using resolveScriptPath_NotFound
      [of "posix ''/''" "''/etc/passwd''" "[''/proj/Script'']" "\<lambda>p. p = ''/etc/passwd''"]
      abs2 out2
    by simp
  have c: "resolveScriptPath (posix ''/'') (\<lambda>p. p = ''/etc/passwd'') ''../../etc/passwd''
             [''/proj/Script''] = None"
    using resolveScriptPath_NotFound
      [of "posix ''/''" "''../../etc/passwd''" "[''/proj/Script'']" "\<lambda>p. p = ''/etc/passwd''"]
      rel3 out2
    by (simp add: res3)
  have d: "resolveScriptPath (posix ''/'') (\<lambda>p. True) ''/proj/Script/a.as'' [] = None"
    using resolveScriptPath_NotFound [of "posix ''/''" "''/proj/Script/a.as''" "[]" "\<lambda>p. True"]
    by simp
  from a b c d show ?thesis by blast
qed

text \<open>
  Claim C1, as stated, fails. With the roots \<open>/p/Script\<close> and \<open>/p/Extra\<close> the relative
  candidate \<open>../Extra/x.as\<close> leaves the first root through a traversal segment and is
  accepted all the same, because confinement is tested against the whole root set: the
  result pairs the file \<open>/p/Extra/x.as\<close> with the root \<open>/p/Script\<close>, which does not
  contain it.
\<close>

theorem resolveScriptPath_inside_root_counterexample:
  "resolveScriptPath (posix ''/'') (\<lambda>p. p = ''/p/Extra/x.as'') ''../Extra/x.as''
      [''/p/Script'', ''/p/Extra'']
     = Some \<lparr> absolutePath = ''/p/Extra/x.as'', root = ''/p/Script'' \<rparr>
   \<and> \<not> isPathInScriptRoots (posix ''/'') ''/p/Extra/x.as'' [''/p/Script'']"
  by code_simp

text \<open>
  Claim C1, amended. Whenever \<open>resolveScriptPath\<close> returns a pair, its \<open>absolutePath\<close>
  exists and is confined by some root of the root set, and its \<open>root\<close> is a member of the
  root set. For an absolute candidate the \<open>absolutePath\<close> is the candidate itself. For a
  relative candidate it is the candidate resolved against the returned root, which is the
  first root, in root-set order, whose resolution is confined by the root set and exists;
  so a candidate whose traversal segments lead outside every root is rejected.
\<close>

theorem resolveScriptPath_confined:
  assumes "resolveScriptPath path existsSync filePath roots = Some res"
  shows "existsSync (absolutePath res) \<and>
         isPathInScriptRoots path (absolutePath res) roots \<and>
         root res \<in> set roots \<and>
         (path_isAbsolute path filePath \<longrightarrow> absolutePath res = filePath) \<and>
         (\<not> path_isAbsolute path filePath \<longrightarrow>
            absolutePath res = path_resolve path (root res) filePath \<and>
            (\<exists>pre post. roots = pre @ root res # post \<and>
               (\<forall>r \<in> set pre. \<not> (isPathInScriptRoots path (path_resolve path r filePath) roots \<and>
                                   existsSync (path_resolve path r filePath)))))"
proof (cases "path_isAbsolute path filePath")
  case True
  with assms obtain r where
    c: "isPathInScriptRoots path filePath roots" "existsSync filePath"
    and f: "find (\<lambda>r. startsWith (path_normalize path filePath) (path_normalize path r)) roots
              = Some r"
    and res: "res = \<lparr> absolutePath = filePath, root = r \<rparr>"
    by (auto simp: resolveScriptPath_def Let_def split: if_splits option.splits)
  from f have "r \<in> set roots"
    by (auto simp: find_Some_iff)
  with True c res show ?thesis by simp
next
  case False
  with assms have "resolveAgainstRoots path existsSync filePath roots roots = Some res"
    by (simp add: resolveScriptPath_def)
  from resolveAgainstRoots_Some [OF this] obtain pre post where
    *: "roots = pre @ root res # post"
      "absolutePath res = path_resolve path (root res) filePath"
      "isPathInScriptRoots path (absolutePath res) roots" "existsSync (absolutePath res)"
      "\<forall>r \<in> set pre. \<not> (isPathInScriptRoots path (path_resolve path r filePath) roots \<and>
                         existsSync (path_resolve path r filePath))"
    by blast
  from *(1) have "root res \<in> set roots" by (metis in_set_conv_decomp)
  with False * show ?thesis by blast
qed

text \<open>
  Witness for the amended C1: with the roots \<open>/proj/Extra\<close> and \<open>/proj/Script\<close> and the
  single file \<open>/proj/Script/a.as\<close>, the relative candidate \<open>a.as\<close> resolves to that file
  under the second root, and the absolute candidate resolves to itself.
\<close>

theorem resolveScriptPath_confined_witness:
  "resolveScriptPath (posix ''/'') (\<lambda>p. p = ''/proj/Script/a.as'') ''a.as''
      [''/proj/Extra'', ''/proj/Script'']
     = Some \<lparr> absolutePath = ''/proj/Script/a.as'', root = ''/proj/Script'' \<rparr>
   \<and> isPathInScriptRoots (posix ''/'') ''/proj/Script/a.as'' [''/proj/Extra'', ''/proj/Script'']
   \<and> ''/proj/Script'' \<in> set [''/proj/Extra'', ''/proj/Script'']
   \<and> ''/proj/Script/a.as'' = path_resolve (posix ''/'') ''/proj/Script'' ''a.as''"
proof -
  have h: "resolveScriptPath (posix ''/'') (\<lambda>p. p = ''/proj/Script/a.as'') ''a.as''
      [''/proj/Extra'', ''/proj/Script'']
     = Some \<lparr> absolutePath = ''/proj/Script/a.as'', root = ''/proj/Script'' \<rparr>"
    by code_simp
  have rel: "\<not> path_isAbsolute (posix ''/'') ''a.as''"
    by (simp add: posix_fields posix_isAbsolute_def)
  from resolveScriptPath_confined [OF h] rel
  have "isPathInScriptRoots (posix ''/'')
          (absolutePath \<lparr> absolutePath = ''/proj/Script/a.as'', root = ''/proj/Script'' \<rparr>)
          [''/proj/Extra'', ''/proj/Script'']
        \<and> root \<lparr> absolutePath = ''/proj/Script/a.as'', root = ''/proj/Script'' \<rparr>
            \<in> set [''/proj/Extra'', ''/proj/Script'']
        \<and> absolutePath \<lparr> absolutePath = ''/proj/Script/a.as'', root = ''/proj/Script'' \<rparr>
            = path_resolve (posix ''/'')
                (root \<lparr> absolutePath = ''/proj/Script/a.as'', root = ''/proj/Script'' \<rparr>) ''a.as''"
    by blast
  then have "isPathInScriptRoots (posix ''/'') ''/proj/Script/a.as'' [''/proj/Extra'', ''/proj/Script'']
        \<and> ''/proj/Script'' \<in> set [''/proj/Extra'', ''/proj/Script'']
        \<and> ''/proj/Script/a.as'' = path_resolve (posix ''/'') ''/proj/Script'' ''a.as''"
    unfolding ResolvedPath.select_convs .
  with h show ?thesis by blast
qed

text \<open>
  The root returned for an absolute candidate is found by \<open>startsWith\<close> alone, without the
  separator test of \<open>isPathInScriptRoots\<close>: beside the sibling root \<open>/proj/Script\<close>, a
  file of the root \<open>/proj/Script2\<close> is returned with the sibling as its root.
\<close>

lemma resolveScriptPath_prefix_root:
  "resolveScriptPath (posix ''/'') (\<lambda>p. p = ''/proj/Script2/x.as'') ''/proj/Script2/x.as''
      [''/proj/Script'', ''/proj/Script2'']
     = Some \<lparr> absolutePath = ''/proj/Script2/x.as'', root = ''/proj/Script'' \<rparr>"
  by code_simp

section \<open>Properties of the content search\<close>

declare contextBeforeLoop.simps [simp del] contextAfterLoop.simps [simp del]
  searchLoop.simps [simp del] decimal.simps [simp del]

lemma contextBeforeLoop_eq:
  "contextBeforeLoop lines i j acc = acc @ map (numbered lines) [j..i - 1]"
proof (induction lines i j acc rule: contextBeforeLoop.induct)
  case (1 lines i j acc)
  show ?case
  proof (cases "j < i")
    case True
    then have "[j..i - 1] = j # [j + 1..i - 1]" by (simp add: upto_rec1)
    with True "1.IH" show ?thesis by (simp add: contextBeforeLoop.simps [of lines i j])
  next
    case False
    then show ?thesis by (simp add: contextBeforeLoop.simps [of lines i j])
  qed
qed

lemma contextAfterLoop_eq:
  "contextAfterLoop lines bound j acc = acc @ map (numbered lines) [j..bound]"
proof (induction lines bound j acc rule: contextAfterLoop.induct)
  case (1 lines bound j acc)
  show ?case
  proof (cases "j \<le> bound")
    case True
    then have "[j..bound] = j # [j + 1..bound]" by (simp add: upto_rec1)
    with True "1.IH" show ?thesis by (simp add: contextAfterLoop.simps [of lines bound j])
  next
    case False
    then show ?thesis by (simp add: contextAfterLoop.simps [of lines bound j])
  qed
qed

lemma searchLoop_eq:
  "searchLoop lines test n i acc =
     acc @ map (matchAt lines n) (filter (\<lambda>k. test (lines ! k)) [i..<length lines])"
proof (induction lines test n i acc rule: searchLoop.induct)
  case (1 lines test n i acc)
  show ?case
  proof (cases "i < length lines")
    case True
    then have "[i..<length lines] = i # [Suc i..<length lines]" by (simp add: upt_rec)
    with True "1.IH" show ?thesis by (simp add: searchLoop.simps [of lines test n i])
  next
    case False
    then show ?thesis by (simp add: searchLoop.simps [of lines test n i])
  qed
qed

lemma context_matchAt:
  assumes "i < length lines" "0 \<le> n"
  shows "context' (matchAt lines n i) =
           map (numbered lines) [max 0 (int i - n)..min (int (length lines) - 1) (int i + n)]"
proof -
  have "[max 0 (int i - n)..min (int (length lines) - 1) (int i + n)] =
          [max 0 (int i - n)..int i - 1] @ int i # [int i + 1..min (int (length lines) - 1) (int i + n)]"
    using assms by (intro upto_split3) auto
  then show ?thesis
    by (simp add: matchAt_def contextBeforeLoop_eq contextAfterLoop_eq)
qed

lemma map_upto_shift: "map (\<lambda>j. g (j + 1)) [a..b] = map g [a + 1..b + 1]"
proof (induction "nat (b + 1 - a)" arbitrary: a)
  case 0
  then show ?case by simp
next
  case (Suc k)
  then have ab: "a \<le> b" by simp
  from Suc have "k = nat (b + 1 - (a + 1))" by simp
  from Suc.hyps(1) [OF this] ab show ?case
    by (simp add: upto_rec1 [of a b] upto_rec1 [of "a + 1" "b + 1"])
qed

lemma numbered_in_range:
  "0 \<le> j \<Longrightarrow> j < int (length lines) \<Longrightarrow>
     numbered lines j = numberStr (j + 1) @ [CHR '':'', CHR 0x09] @ lines ! nat j"
  by (simp add: numbered_def lineAt_def)

lemma searchInFile_read_failure:
  "readFileSync (absolutePath scriptFile) = None \<Longrightarrow>
     searchInFile readFileSync scriptFile test contextLines = []"
  by (simp add: searchInFile_def)

lemma map_by_index: "map f xs = map (\<lambda>i. f (xs ! i)) [0..<length xs]"
  by (rule nth_equalityI) simp_all

lemma tenLines_split:
  "str_split (CHR 0x0A) tenLines =
     [''l1'', ''l2'', ''l3'', ''l4'', ''l5'', ''l6'', ''l7'', ''l8'', ''l9'', ''l10'']"
  by code_simp

text \<open>
  Claim C7. For a file that can be read and a context radius \<open>N \<ge> 0\<close>, every match that
  \<open>searchInFile\<close> returns for a line \<open>l\<close> (counted from 1) carries as context exactly the
  lines \<open>max 1 (l - N)\<close> to \<open>min n (l + N)\<close> of the \<open>n\<close> lines of the file, in order, each
  printed as its number, a colon, a tab and its text; the match line itself stands at its
  own position \<open>l - max 1 (l - N)\<close> of that window.
\<close>

theorem searchInFile_context:
  assumes rd: "readFileSync (absolutePath scriptFile) = Some fileText"
    and n: "0 \<le> contextLines"
    and m: "m \<in> set (searchInFile readFileSync scriptFile test contextLines)"
  shows "1 \<le> line m \<and> line m \<le> length (str_split (CHR 0x0A) fileText) \<and>
         content m = str_split (CHR 0x0A) fileText ! (line m - 1) \<and>
         context' m =
           map (\<lambda>k. numberStr k @ [CHR '':'', CHR 0x09] @ str_split (CHR 0x0A) fileText ! nat (k - 1))
             [max 1 (int (line m) - contextLines)..
              min (int (length (str_split (CHR 0x0A) fileText))) (int (line m) + contextLines)] \<and>
         context' m ! nat (int (line m) - max 1 (int (line m) - contextLines)) =
           numberStr (int (line m)) @ [CHR '':'', CHR 0x09] @ content m"
proof -
  define lines where "lines = str_split (CHR 0x0A) fileText"
  from m rd obtain i where i: "i < length lines" and mi: "m = matchAt lines contextLines i"
    by (auto simp: searchInFile_def searchLoop_eq lines_def)
  have l: "line m = i + 1" and c: "content m = lines ! i"
    using mi by (simp_all add: matchAt_def)
  let ?lo = "max 0 (int i - contextLines)" and ?hi = "min (int (length lines) - 1) (int i + contextLines)"
  have ctx0: "context' m = map (numbered lines) [?lo..?hi]"
    using mi context_matchAt [OF i n] by simp
  have "map (numbered lines) [?lo..?hi] =
        map (\<lambda>j. numberStr (j + 1) @ [CHR '':'', CHR 0x09] @ lines ! nat j) [?lo..?hi]"
    by (rule map_cong) (auto simp: numbered_in_range)
  also have "\<dots> = map (\<lambda>k. numberStr k @ [CHR '':'', CHR 0x09] @ lines ! nat (k - 1)) [?lo + 1..?hi + 1]"
    using map_upto_shift [of "\<lambda>k. numberStr k @ [CHR '':'', CHR 0x09] @ lines ! nat (k - 1)" ?lo ?hi]
    by simp
  also have "?lo + 1 = max 1 (int (line m) - contextLines)" using l by simp
  also have "?hi + 1 = min (int (length lines)) (int (line m) + contextLines)" using l by simp
  finally have ctx: "context' m =
      map (\<lambda>k. numberStr k @ [CHR '':'', CHR 0x09] @ lines ! nat (k - 1))
        [max 1 (int (line m) - contextLines)..min (int (length lines)) (int (line m) + contextLines)]"
    using ctx0 by simp
  have pos: "[?lo..?hi] ! nat (int i - ?lo) = ?lo + int (nat (int i - ?lo))"
    using i n by (intro nth_upto) auto
  have len: "nat (int i - ?lo) < length [?lo..?hi]"
    using i n by auto
  have nm: "context' m ! nat (int i - ?lo) = numbered lines (int i)"
    using pos len ctx0 by simp
  have k: "nat (int (line m) - max 1 (int (line m) - contextLines)) = nat (int i - ?lo)"
    using l by (auto simp: max_def)
  have nb: "numbered lines (int i) = numberStr (int (line m)) @ [CHR '':'', CHR 0x09] @ content m"
    using i l c by (simp add: numbered_in_range add.commute)
  have at: "context' m ! nat (int (line m) - max 1 (int (line m) - contextLines)) =
      numberStr (int (line m)) @ [CHR '':'', CHR 0x09] @ content m"
    unfolding k nm nb ..
  from i l c ctx at show ?thesis
    unfolding lines_def by simp
qed

text \<open>
  Witness for C7, radius 2 on the ten-line file: the match at line 1 spans lines 1 to 3,
  the match at line 5 spans lines 3 to 7, the match at line 10 spans lines 8 to 10.
\<close>

theorem searchInFile_context_witness:
  "map line (searchInFile (\<lambda>p. Some tenLines) exampleFile ends 2) = [1, 5, 10]
   \<and> map context' (searchInFile (\<lambda>p. Some tenLines) exampleFile ends 2) =
       [[''1:'' @ [CHR 0x09] @ ''l1'', ''2:'' @ [CHR 0x09] @ ''l2'', ''3:'' @ [CHR 0x09] @ ''l3''],
        [''3:'' @ [CHR 0x09] @ ''l3'', ''4:'' @ [CHR 0x09] @ ''l4'', ''5:'' @ [CHR 0x09] @ ''l5'',
         ''6:'' @ [CHR 0x09] @ ''l6'', ''7:'' @ [CHR 0x09] @ ''l7''],
        [''8:'' @ [CHR 0x09] @ ''l8'', ''9:'' @ [CHR 0x09] @ ''l9'', ''10:'' @ [CHR 0x09] @ ''l10'']]"
proof -
  let ?res = "searchInFile (\<lambda>p. Some tenLines) exampleFile ends 2"
  let ?ls = "[''l1'', ''l2'', ''l3'', ''l4'', ''l5'', ''l6'', ''l7'', ''l8'', ''l9'', ''l10'']"
  let ?g = "\<lambda>k. numberStr k @ [CHR '':'', CHR 0x09] @ ?ls ! nat (k - 1)"
  have rd: "(\<lambda>p. Some tenLines) (absolutePath exampleFile) = Some tenLines" by simp
  have n: "(0::int) \<le> 2" by simp
  have lines: "map line ?res = [1, 5, 10]" by code_simp
  from arg_cong [OF lines, of length] have len: "length ?res = 3" by simp
  have ctx: "context' m = map ?g [max 1 (int (line m) - 2)..min 10 (int (line m) + 2)]"
    if "m \<in> set ?res" for m
    using searchInFile_context [where readFileSync = "\<lambda>p. Some tenLines" and scriptFile = exampleFile
        and fileText = tenLines and contextLines = 2 and test = ends and m = m, OF _ n that]
    unfolding tenLines_split by simp
  have c: "context' (?res ! i) = map ?g [max 1 (int ([1, 5, 10] ! i) - 2)..min 10 (int ([1, 5, 10] ! i) + 2)]"
    if "i < 3" for i
  proof -
    from that len have mem: "?res ! i \<in> set ?res" by simp
    from that len have "line (?res ! i) = map line ?res ! i" by simp
    then have "line (?res ! i) = [1, 5, 10] ! i" unfolding lines .
    with ctx [OF mem] show ?thesis by simp
  qed
  have c0: "context' (?res ! 0) = map ?g [1..3]" using c [of 0] by simp
  have c1: "context' (?res ! 1) = map ?g [3..7]" using c [of 1] by simp
  have c2: "context' (?res ! 2) = map ?g [8..10]" using c [of 2] by simp
  have e0: "map ?g [1..3] = [''1:'' @ [CHR 0x09] @ ''l1'', ''2:'' @ [CHR 0x09] @ ''l2'', ''3:'' @ [CHR 0x09] @ ''l3'']"
    by code_simp
  have e1: "map ?g [3..7] = [''3:'' @ [CHR 0x09] @ ''l3'', ''4:'' @ [CHR 0x09] @ ''l4'', ''5:'' @ [CHR 0x09] @ ''l5'',
         ''6:'' @ [CHR 0x09] @ ''l6'', ''7:'' @ [CHR 0x09] @ ''l7'']"
    by code_simp
  have e2: "map ?g [8..10] = [''8:'' @ [CHR 0x09] @ ''l8'', ''9:'' @ [CHR 0x09] @ ''l9'', ''10:'' @ [CHR 0x09] @ ''l10'']"
    by code_simp
  have "map context' ?res = map (\<lambda>i. context' (?res ! i)) [0..<length ?res]"
    by (rule map_by_index)
  also have "[0..<length ?res] = [0, 1, 2]" unfolding len by (simp add: upt_rec)
  finally have "map context' ?res = [map ?g [1..3], map ?g [3..7], map ?g [8..10]]"
    using c0 c1 c2 by simp
  then have "map context' ?res =
       [[''1:'' @ [CHR 0x09] @ ''l1'', ''2:'' @ [CHR 0x09] @ ''l2'', ''3:'' @ [CHR 0x09] @ ''l3''],
        [''3:'' @ [CHR 0x09] @ ''l3'', ''4:'' @ [CHR 0x09] @ ''l4'', ''5:'' @ [CHR 0x09] @ ''l5'',
         ''6:'' @ [CHR 0x09] @ ''l6'', ''7:'' @ [CHR 0x09] @ ''l7''],
        [''8:'' @ [CHR 0x09] @ ''l8'', ''9:'' @ [CHR 0x09] @ ''l9'', ''10:'' @ [CHR 0x09] @ ''l10'']]"
    unfolding e0 e1 e2 .
  with lines show ?thesis by blast
qed

text \<open>
  Claim C10. For a file that can be read, the matches \<open>searchInFile\<close> returns are the
  matching lines of the file, each exactly once and in file order: their contents are
  the lines that pass the test, their number is the number of those lines, and their line
  numbers are distinct. The test only says whether a line matches, so the number of
  match positions inside a line plays no part.
\<close>

theorem searchInFile_one_match_per_line:
  assumes rd: "readFileSync (absolutePath scriptFile) = Some fileText"
  shows "map content (searchInFile readFileSync scriptFile test contextLines)
           = filter test (str_split (CHR 0x0A) fileText) \<and>
         length (searchInFile readFileSync scriptFile test contextLines)
           = length (filter test (str_split (CHR 0x0A) fileText)) \<and>
         map line (searchInFile readFileSync scriptFile test contextLines)
           = map Suc (filter (\<lambda>i. test (str_split (CHR 0x0A) fileText ! i))
                        [0..<length (str_split (CHR 0x0A) fileText)]) \<and>
         distinct (map line (searchInFile readFileSync scriptFile test contextLines))"
proof -
  define lines where "lines = str_split (CHR 0x0A) fileText"
  define hits where "hits = filter (\<lambda>k. test (lines ! k)) [0..<length lines]"
  have res: "searchInFile readFileSync scriptFile test contextLines = map (matchAt lines contextLines) hits"
    using rd by (simp add: searchInFile_def searchLoop_eq lines_def hits_def)
  have "map content (map (matchAt lines contextLines) hits) = map ((!) lines) hits"
    by (simp add: matchAt_def comp_def)
  also have "\<dots> = filter test (map ((!) lines) [0..<length lines])"
    unfolding hits_def by (simp add: filter_map comp_def)
  also have "\<dots> = filter test lines" by (simp add: map_nth)
  finally have c: "map content (searchInFile readFileSync scriptFile test contextLines) = filter test lines"
    using res by simp
  from arg_cong [OF c, of length]
  have n: "length (searchInFile readFileSync scriptFile test contextLines) = length (filter test lines)"
    by simp
  have l: "map line (searchInFile readFileSync scriptFile test contextLines) = map Suc hits"
    unfolding res by (simp add: matchAt_def comp_def)
  have "distinct hits" unfolding hits_def by simp
  then have d: "distinct (map line (searchInFile readFileSync scriptFile test contextLines))"
    unfolding l by (simp add: distinct_map)
  from c n l d show ?thesis unfolding lines_def hits_def by blast
qed

text \<open>
  Witness for C10: the file with the lines \<open>xx\<close>, \<open>ab\<close>, \<open>x\<close> searched for \<open>/x/\<close>. The
  first line holds two occurrences and gives one match; there are two matches, at the
  lines 1 and 3.
\<close>

theorem searchInFile_one_match_per_line_witness:
  "length (searchInFile (\<lambda>p. Some (''xx'' @ [CHR 0x0A] @ ''ab'' @ [CHR 0x0A] @ ''x'')) exampleFile
             (\<lambda>s. CHR ''x'' \<in> set s) 2) = 2
   \<and> map line (searchInFile (\<lambda>p. Some (''xx'' @ [CHR 0x0A] @ ''ab'' @ [CHR 0x0A] @ ''x'')) exampleFile
             (\<lambda>s. CHR ''x'' \<in> set s) 2) = [1, 3]"
proof -
  have sp: "str_split (CHR 0x0A) (''xx'' @ [CHR 0x0A] @ ''ab'' @ [CHR 0x0A] @ ''x'') = [''xx'', ''ab'', ''x'']"
    by code_simp
  have up: "[0..<3] = [0, 1, 2]" by (simp add: upt_rec)
  from searchInFile_one_match_per_line
    [where readFileSync = "\<lambda>p. Some (''xx'' @ [CHR 0x0A] @ ''ab'' @ [CHR 0x0A] @ ''x'')"
       and scriptFile = exampleFile and fileText = "''xx'' @ [CHR 0x0A] @ ''ab'' @ [CHR 0x0A] @ ''x''"
       and test = "\<lambda>s. CHR ''x'' \<in> set s" and contextLines = 2]
  show ?thesis unfolding sp by (simp add: up numeral_3_eq_3)
qed

section \<open>Properties of the commandlet runner\<close>

lemmas handler_defs = onStdoutData_def onStderrData_def onTimeout_def onClose_def onError_def

lemma lifecycleInv_initial: "lifecycleInv initial"
  by (simp add: lifecycleInv_def initial_def)

lemma lifecycleInv_step:
  assumes "lifecycleInv s" "\<not> isError ev"
  shows "lifecycleInv (step s ev)"
proof (cases ev)
  case (StdoutData c)
  with assms show ?thesis by (auto simp: lifecycleInv_def onStdoutData_def Let_def)
next
  case (StderrData c)
  with assms show ?thesis by (auto simp: lifecycleInv_def onStderrData_def Let_def)
next
  case TimerFired
  show ?thesis
  proof (cases "timerArmed s")
    case True
    with assms(1) have "kills s = 0" "\<not> finished s" "resolved s = []"
      by (auto simp: lifecycleInv_def)
    with True TimerFired assms(1) show ?thesis
      by (simp add: lifecycleInv_def onTimeout_def)
  next
    case False
    with TimerFired assms(1) show ?thesis by simp
  qed
next
  case (Close code)
  with assms show ?thesis by (auto simp: lifecycleInv_def onClose_def Let_def)
next
  case (Error m)
  with assms show ?thesis by simp
qed

lemma lifecycleInv_foldl:
  "lifecycleInv s \<Longrightarrow> \<forall>ev \<in> set es. \<not> isError ev \<Longrightarrow> lifecycleInv (foldl step s es)"
  by (induction es arbitrary: s) (simp_all add: lifecycleInv_step del: step.simps)

lemma resolved_step:
  "length (resolved (step s ev)) = length (resolved s) + (if isClose ev \<or> isError ev then 1 else 0)"
  by (cases ev) (simp_all add: handler_defs Let_def)

lemma resolved_foldl:
  "length (resolved (foldl step s es)) =
     length (resolved s) + length (filter (\<lambda>ev. isClose ev \<or> isError ev) es)"
  by (induction es arbitrary: s) (simp_all add: resolved_step del: step.simps)

lemma filter_close_no_error:
  "\<forall>ev \<in> set es. \<not> isError ev \<Longrightarrow> filter (\<lambda>ev. isClose ev \<or> isError ev) es = filter isClose es"
  by (rule filter_cong) auto


text \<open>
  The two streams are captured apart, and a captured stream never grows beyond the
  ceiling and one marker.
\<close>

lemma other_stream_untouched:
  "stdout (onStderrData s c) = stdout s" "stderr (onStdoutData s c) = stderr s"
  by (simp_all add: onStderrData_def onStdoutData_def Let_def)

lemma stdout_bound_step:
  "length (stdout s) \<le> MAX_OUTPUT_SIZE + length stdoutMarker \<Longrightarrow>
   length (stdout (step s ev)) \<le> MAX_OUTPUT_SIZE + length stdoutMarker"
  by (cases ev) (auto simp: onStdoutData_def onStderrData_def onTimeout_def onClose_def onError_def Let_def)

lemma stdout_bound_foldl:
  "length (stdout s) \<le> MAX_OUTPUT_SIZE + length stdoutMarker \<Longrightarrow>
   length (stdout (foldl step s es)) \<le> MAX_OUTPUT_SIZE + length stdoutMarker"
  by (induction es arbitrary: s) (simp_all add: stdout_bound_step del: step.simps)

lemma stdout_bounded: "length (stdout (run es)) \<le> MAX_OUTPUT_SIZE + length stdoutMarker"
  unfolding run_def by (rule stdout_bound_foldl) (simp add: initial_def)

text \<open>
  What \<open>stdout\<close> holds after any events: the first \<open>MAX_OUTPUT_SIZE\<close> characters of all
  that was delivered, followed by the marker exactly when \<open>stdoutTruncated\<close> was set, which
  happens only if more than \<open>MAX_OUTPUT_SIZE\<close> characters were delivered. The marker is
  therefore written at most once, at the end.
\<close>

lemma stdout_written_step:
  assumes inv: "stdout s = take MAX_OUTPUT_SIZE d @ (if stdoutTruncated s then stdoutMarker else [])"
    and tr: "stdoutTruncated s \<longrightarrow> MAX_OUTPUT_SIZE < length d"
  shows "stdout (step s ev) =
           take MAX_OUTPUT_SIZE (d @ stdoutChunk ev) @
             (if stdoutTruncated (step s ev) then stdoutMarker else [])
         \<and> (stdoutTruncated (step s ev) \<longrightarrow> MAX_OUTPUT_SIZE < length (d @ stdoutChunk ev))"
proof (cases ev)
  case (StdoutData c)
  show ?thesis
  proof (cases "length (stdout s) < MAX_OUTPUT_SIZE")
    case True
    with inv tr have nt: "\<not> stdoutTruncated s" by auto
    with inv True have d: "stdout s = d" "length d < MAX_OUTPUT_SIZE" by auto
    show ?thesis
    proof (cases "length c > MAX_OUTPUT_SIZE - length d")
      case over: True
      with d True StdoutData show ?thesis by (simp add: onStdoutData_def)
    next
      case fits: False
      with d True nt StdoutData show ?thesis by (simp add: onStdoutData_def)
    qed
  next
    case False
    have "MAX_OUTPUT_SIZE \<le> length d"
    proof (cases "stdoutTruncated s")
      case True
      with tr show ?thesis by simp
    next
      case nt: False
      with inv False show ?thesis by simp
    qed
    with False inv tr StdoutData show ?thesis by (auto simp: onStdoutData_def)
  qed
next
  case (StderrData c)
  with inv tr show ?thesis by (simp add: onStderrData_def Let_def)
next
  case TimerFired
  with inv tr show ?thesis by (simp add: onTimeout_def)
next
  case (Close code)
  with inv tr show ?thesis by (simp add: onClose_def Let_def)
next
  case (Error m)
  with inv tr show ?thesis by (simp add: onError_def)
qed

lemma stdout_written_foldl:
  "stdout s = take MAX_OUTPUT_SIZE d @ (if stdoutTruncated s then stdoutMarker else []) \<Longrightarrow>
   (stdoutTruncated s \<longrightarrow> MAX_OUTPUT_SIZE < length d) \<Longrightarrow>
   stdout (foldl step s es) =
     take MAX_OUTPUT_SIZE (d @ concat (map stdoutChunk es)) @
       (if stdoutTruncated (foldl step s es) then stdoutMarker else [])
   \<and> (stdoutTruncated (foldl step s es) \<longrightarrow>
        MAX_OUTPUT_SIZE < length (d @ concat (map stdoutChunk es)))"
proof (induction es arbitrary: s d)
  case Nil
  then show ?case by simp
next
  case (Cons ev es)
  from stdout_written_step [OF Cons.prems]
  have "stdout (step s ev) =
           take MAX_OUTPUT_SIZE (d @ stdoutChunk ev) @
             (if stdoutTruncated (step s ev) then stdoutMarker else [])"
    and "stdoutTruncated (step s ev) \<longrightarrow> MAX_OUTPUT_SIZE < length (d @ stdoutChunk ev)"
    by blast+
  from Cons.IH [OF this] show ?case by simp
qed

lemma stdout_written:
  "stdout (run es) =
     take MAX_OUTPUT_SIZE (concat (map stdoutChunk es)) @
       (if stdoutTruncated (run es) then stdoutMarker else [])
   \<and> (stdoutTruncated (run es) \<longrightarrow> MAX_OUTPUT_SIZE < length (concat (map stdoutChunk es)))"
  using stdout_written_foldl [of initial "[]" es] by (simp add: run_def initial_def)

text \<open>
  Claim C4 at its failing input. The first chunk on \<open>stdout\<close> fills the buffer to the
  ceiling exactly; the test \<open>chunk.length > remaining\<close> is false for it, so no marker is
  written. The next chunk finds \<open>stdout.length < MAX_OUTPUT_SIZE\<close> false and is dropped
  unmarked: data was lost and the buffer holds no truncation marker.
\<close>

theorem stdout_exact_fit_no_marker:
  "stdout (run [StdoutData (replicate MAX_OUTPUT_SIZE (CHR ''a'')), StdoutData ''b''])
     = replicate MAX_OUTPUT_SIZE (CHR ''a'')
   \<and> \<not> stdoutTruncated (run [StdoutData (replicate MAX_OUTPUT_SIZE (CHR ''a'')), StdoutData ''b''])"
proof -
  have pos: "0 < MAX_OUTPUT_SIZE" by (simp add: MAX_OUTPUT_SIZE_def)
  have s1: "onStdoutData initial (replicate MAX_OUTPUT_SIZE (CHR ''a''))
              = initial\<lparr> stdout := replicate MAX_OUTPUT_SIZE (CHR ''a'') \<rparr>"
    using pos by (simp add: onStdoutData_def initial_def)
  have s2: "onStdoutData (initial\<lparr> stdout := replicate MAX_OUTPUT_SIZE (CHR ''a'') \<rparr>) ''b''
              = initial\<lparr> stdout := replicate MAX_OUTPUT_SIZE (CHR ''a'') \<rparr>"
    by (simp add: onStdoutData_def)
  show ?thesis
    by (simp add: run_def s1 s2) (simp add: initial_def)
qed

text \<open>
  Claim C5. In every sequence of data, timer and close events, whatever their order:
  the process is killed at most once; \<open>resolve\<close> is called once for each close event, so
  once when the process closes once; every result reports \<open>timedOut\<close> exactly when the
  kill signal was sent, so that no run is both killed and reported as completed; and,
  the process having been spawned, the promise holds a result exactly when a close event
  has arrived.
\<close>

theorem one_terminal_transition:
  assumes noError: "\<forall>ev \<in> set es. \<not> isError ev"
  shows "kills (run es) \<le> 1 \<and>
         length (resolved (run es)) = length (filter isClose es) \<and>
         (\<forall>r \<in> set (resolved (run es)). timedOut r \<longleftrightarrow> kills (run es) = 1) \<and>
         (spawn editor ([project, ''-run='' @ cmdlet] @ extra) = Spawned \<longrightarrow>
            ((\<exists>r. runCommandlet spawn editor project cmdlet extra es = Fulfilled r) \<longleftrightarrow>
             (\<exists>ev \<in> set es. isClose ev)))"
proof -
  have inv: "lifecycleInv (run es)"
    unfolding run_def using lifecycleInv_initial noError by (rule lifecycleInv_foldl)
  have n: "length (resolved (run es)) = length (filter isClose es)"
    unfolding run_def by (simp add: resolved_foldl filter_close_no_error [OF noError] initial_def)
  have p: "(\<exists>r. runCommandlet spawn editor project cmdlet extra es = Fulfilled r) \<longleftrightarrow>
           (\<exists>ev \<in> set es. isClose ev)"
    if spawned: "spawn editor ([project, ''-run='' @ cmdlet] @ extra) = Spawned"
  proof -
    have "(\<exists>r. runCommandlet spawn editor project cmdlet extra es = Fulfilled r) \<longleftrightarrow>
          resolved (run es) \<noteq> []"
      using spawned by (simp add: runCommandlet_def split: list.splits)
    also have "\<dots> \<longleftrightarrow> filter isClose es \<noteq> []"
      using n by (metis length_0_conv)
    also have "\<dots> \<longleftrightarrow> (\<exists>ev \<in> set es. isClose ev)"
      by (simp add: filter_empty_conv)
    finally show ?thesis .
  qed
  from inv n p show ?thesis by (simp add: lifecycleInv_def)
qed

text \<open>
  Witness for C5, the two orders of the race. Timer first: the process is killed and the
  one result has \<open>timedOut\<close> set. Close first: the timer is disarmed, nothing is killed and
  the one result reports completion.
\<close>

theorem one_terminal_transition_witness:
  "runCommandlet exampleSpawn ''/ue/UnrealEditor-Cmd'' ''/proj/Game.uproject'' ''AngelscriptTest'' []
      [StdoutData ''ok'', TimerFired, Close None]
     = Fulfilled \<lparr> stdout = ''ok'', stderr = [], timedOut = True, exitCode = - 1 \<rparr>
   \<and> kills (run [StdoutData ''ok'', TimerFired, Close None]) = 1
   \<and> length (resolved (run [StdoutData ''ok'', TimerFired, Close None])) = 1
   \<and> runCommandlet exampleSpawn ''/ue/UnrealEditor-Cmd'' ''/proj/Game.uproject'' ''AngelscriptTest'' []
      [StdoutData ''ok'', Close (Some 0), TimerFired]
     = Fulfilled \<lparr> stdout = ''ok'', stderr = [], timedOut = False, exitCode = 0 \<rparr>
   \<and> kills (run [StdoutData ''ok'', Close (Some 0), TimerFired]) = 0
   \<and> length (resolved (run [StdoutData ''ok'', Close (Some 0), TimerFired])) = 1"
proof -
  let ?a = "[StdoutData ''ok'', TimerFired, Close None]"
  let ?b = "[StdoutData ''ok'', Close (Some 0), TimerFired]"
  let ?run = "runCommandlet exampleSpawn ''/ue/UnrealEditor-Cmd'' ''/proj/Game.uproject''
                ''AngelscriptTest'' []"
  have ra: "?run ?a = Fulfilled \<lparr> stdout = ''ok'', stderr = [], timedOut = True, exitCode = - 1 \<rparr>"
    by (simp add: runCommandlet_def exampleSpawn_def run_def initial_def handler_defs
        MAX_OUTPUT_SIZE_def)
  have rb: "?run ?b = Fulfilled \<lparr> stdout = ''ok'', stderr = [], timedOut = False, exitCode = 0 \<rparr>"
    by (simp add: runCommandlet_def exampleSpawn_def run_def initial_def handler_defs
        MAX_OUTPUT_SIZE_def)
  have la: "length (resolved (run ?a)) = 1" and lb: "length (resolved (run ?b)) = 1"
    using one_terminal_transition [of ?a] one_terminal_transition [of ?b] by simp_all
  from ra la have "resolved (run ?a) = [\<lparr> stdout = ''ok'', stderr = [], timedOut = True, exitCode = - 1 \<rparr>]"
    by (cases "resolved (run ?a)") (simp_all add: runCommandlet_def exampleSpawn_def)
  with one_terminal_transition [of ?a] have ka: "kills (run ?a) = 1" by simp
  from rb lb have "resolved (run ?b) = [\<lparr> stdout = ''ok'', stderr = [], timedOut = False, exitCode = 0 \<rparr>]"
    by (cases "resolved (run ?b)") (simp_all add: runCommandlet_def exampleSpawn_def)
  with one_terminal_transition [of ?b] have "kills (run ?b) \<noteq> 1" "kills (run ?b) \<le> 1" by simp_all
  then have kb: "kills (run ?b) = 0" by simp
  from ra rb la lb ka kb show ?thesis by blast
qed

lemma resolved_step_grows: "\<exists>ys. resolved (step s ev) = resolved s @ ys"
  by (cases ev) (simp_all add: handler_defs Let_def)

lemma resolved_foldl_grows: "\<exists>ys. resolved (foldl step s es) = resolved s @ ys"
proof (induction es arbitrary: s)
  case Nil
  show ?case by simp
next
  case (Cons ev es)
  from resolved_step_grows obtain ys where "resolved (step s ev) = resolved s @ ys" by blast
  moreover from Cons obtain zs where
    "resolved (foldl step (step s ev) es) = resolved (step s ev) @ zs" by blast
  ultimately show ?case by simp
qed

text \<open>
  A launch that fails after \<open>spawn\<close> has returned reaches \<open>runCommandlet\<close> as the \<open>error\<close>
  event of the child process, before any \<open>close\<close>. Whatever data and timer events came
  before it and whatever events follow, the promise then holds \<open>exitCode = -1\<close>,
  \<open>timedOut = false\<close>, the \<open>stdout\<close> captured so far, and the \<open>stderr\<close> captured so far
  followed by a newline, \<open>Spawn error: \<close> and the message of the error.
\<close>

lemma spawn_error_event_result:
  assumes spawned: "spawn editor ([project, ''-run='' @ cmdlet] @ extra) = Spawned"
    and first: "\<forall>ev \<in> set pre. \<not> isClose ev \<and> \<not> isError ev"
  shows "runCommandlet spawn editor project cmdlet extra (pre @ Error message # post) =
           Fulfilled \<lparr> stdout = stdout (run pre),
                        stderr = stderr (run pre) @ [CHR 0x0A] @ ''Spawn error: '' @ message,
                        timedOut = False, exitCode = - 1 \<rparr>"
proof -
  from first have "filter (\<lambda>ev. isClose ev \<or> isError ev) pre = []"
    by (simp add: filter_empty_conv)
  then have "length (resolved (run pre)) = 0"
    unfolding run_def by (simp add: resolved_foldl initial_def)
  then have none: "resolved (run pre) = []" by simp
  have "run (pre @ Error message # post) = foldl step (onError (run pre) message) post"
    by (simp add: run_def)
  moreover obtain ys where
    "resolved (foldl step (onError (run pre) message) post) = resolved (onError (run pre) message) @ ys"
    using resolved_foldl_grows by blast
  ultimately have "resolved (run (pre @ Error message # post)) =
      \<lparr> stdout = stdout (run pre),
        stderr = stderr (run pre) @ [CHR 0x0A] @ ''Spawn error: '' @ message,
        timedOut = False, exitCode = - 1 \<rparr> # ys"
    using none by (simp add: onError_def)
  with spawned show ?thesis by (simp add: runCommandlet_def)
qed

text \<open>
  What \<open>stderr\<close> holds after any events, as for \<open>stdout\<close>: the first \<open>MAX_OUTPUT_SIZE\<close>
  characters of all that was delivered on \<open>stderr\<close>, followed by the marker exactly when
  \<open>stderrTruncated\<close> was set.
\<close>

lemma stderr_written_step:
  assumes inv: "stderr s = take MAX_OUTPUT_SIZE d @ (if stderrTruncated s then stderrMarker else [])"
    and tr: "stderrTruncated s \<longrightarrow> MAX_OUTPUT_SIZE < length d"
  shows "stderr (step s ev) =
           take MAX_OUTPUT_SIZE (d @ stderrChunk ev) @
             (if stderrTruncated (step s ev) then stderrMarker else [])
         \<and> (stderrTruncated (step s ev) \<longrightarrow> MAX_OUTPUT_SIZE < length (d @ stderrChunk ev))"
proof (cases ev)
  case (StderrData c)
  show ?thesis
  proof (cases "length (stderr s) < MAX_OUTPUT_SIZE")
    case True
    with inv tr have nt: "\<not> stderrTruncated s" by auto
    with inv True have d: "stderr s = d" "length d < MAX_OUTPUT_SIZE" by auto
    show ?thesis
    proof (cases "length c > MAX_OUTPUT_SIZE - length d")
      case over: True
      with d True StderrData show ?thesis by (simp add: onStderrData_def)
    next
      case fits: False
      with d True nt StderrData show ?thesis by (simp add: onStderrData_def)
    qed
  next
    case False
    have "MAX_OUTPUT_SIZE \<le> length d"
    proof (cases "stderrTruncated s")
      case True
      with tr show ?thesis by simp
    next
      case nt: False
      with inv False show ?thesis by simp
    qed
    with False inv tr StderrData show ?thesis by (auto simp: onStderrData_def)
  qed
next
  case (StdoutData c)
  with inv tr show ?thesis by (simp add: onStdoutData_def Let_def)
next
  case TimerFired
  with inv tr show ?thesis by (simp add: onTimeout_def)
next
  case (Close code)
  with inv tr show ?thesis by (simp add: onClose_def Let_def)
next
  case (Error m)
  with inv tr show ?thesis by (simp add: onError_def)
qed

lemma stderr_written_foldl:
  "stderr s = take MAX_OUTPUT_SIZE d @ (if stderrTruncated s then stderrMarker else []) \<Longrightarrow>
   (stderrTruncated s \<longrightarrow> MAX_OUTPUT_SIZE < length d) \<Longrightarrow>
   stderr (foldl step s es) =
     take MAX_OUTPUT_SIZE (d @ concat (map stderrChunk es)) @
       (if stderrTruncated (foldl step s es) then stderrMarker else [])
   \<and> (stderrTruncated (foldl step s es) \<longrightarrow>
        MAX_OUTPUT_SIZE < length (d @ concat (map stderrChunk es)))"
proof (induction es arbitrary: s d)
  case Nil
  then show ?case by simp
next
  case (Cons ev es)
  from stderr_written_step [OF Cons.prems]
  have "stderr (step s ev) =
           take MAX_OUTPUT_SIZE (d @ stderrChunk ev) @
             (if stderrTruncated (step s ev) then stderrMarker else [])"
    and "stderrTruncated (step s ev) \<longrightarrow> MAX_OUTPUT_SIZE < length (d @ stderrChunk ev)"
    by blast+
  from Cons.IH [OF this] show ?case by simp
qed

lemma stderr_written:
  "stderr (run es) =
     take MAX_OUTPUT_SIZE (concat (map stderrChunk es)) @
       (if stderrTruncated (run es) then stderrMarker else [])
   \<and> (stderrTruncated (run es) \<longrightarrow> MAX_OUTPUT_SIZE < length (concat (map stderrChunk es)))"
  using stderr_written_foldl [of initial "[]" es] by (simp add: run_def initial_def)

text \<open>
  An executable that does not exist (\<open>ENOENT\<close>), after a first line on \<open>stderr\<close>: the
  result carries that line and the error; the \<open>close\<close> event that follows the error does
  not change it.
\<close>

lemma spawn_error_event_example:
  "runCommandlet exampleSpawn ''/nonexistent'' ''/proj/Game.uproject'' ''AngelscriptTest'' []
      [StderrData ''warn'', Error ''spawn /nonexistent ENOENT'', Close (Some (- 2))] =
     Fulfilled \<lparr> stdout = [],
                  stderr = ''warn'' @ [CHR 0x0A] @ ''Spawn error: spawn /nonexistent ENOENT'',
                  timedOut = False, exitCode = - 1 \<rparr>"
  by (simp add: runCommandlet_def exampleSpawn_def run_def initial_def handler_defs
      MAX_OUTPUT_SIZE_def)

lemma spawn_throws_rejected:
  "spawn editor ([project, ''-run='' @ cmdlet] @ extra) = SpawnThrows message \<Longrightarrow>
   runCommandlet spawn editor project cmdlet extra es = Rejected message"
  by (simp add: runCommandlet_def)

text \<open>
  Claim C8 at its failing input. The executable path is the empty string, which cannot
  be launched. \<open>spawn\<close> throws in the executor of the promise, no \<open>try\<close> surrounds the
  call and no handler is registered yet: whatever events one supposes, the promise is
  rejected with the error that was thrown, and there is no \<open>CommandletResult\<close>, neither
  the sentinel exit code nor a \<open>stderr\<close> with the description of the failure.
\<close>

theorem spawn_throw_no_result:
  "runCommandlet exampleSpawn [] ''/proj/Game.uproject'' ''AngelscriptTest'' [] es
     = Rejected ''ERR_INVALID_ARG_VALUE''
   \<and> (\<nexists>r. runCommandlet exampleSpawn [] ''/proj/Game.uproject'' ''AngelscriptTest'' [] es
              = Fulfilled r)"
  by (simp add: runCommandlet_def exampleSpawn_def)

section \<open>Properties of the scanner\<close>

lemma mset_insertSorted: "mset (insertSorted c x ys) = add_mset x (mset ys)"
  by (induction ys) simp_all

lemma mset_array_sort: "mset (array_sort c xs) = mset xs"
  unfolding array_sort_def by (induction xs) (simp_all add: mset_insertSorted)

lemma set_insertSorted: "set (insertSorted c x ys) = insert x (set ys)"
  by (induction ys) auto

lemma sorted_insertSorted:
  assumes tot: "\<And>a b. a \<in> S \<Longrightarrow> b \<in> S \<Longrightarrow> c a b \<le> 0 \<or> c b a \<le> 0"
    and tr: "\<And>a b d. a \<in> S \<Longrightarrow> b \<in> S \<Longrightarrow> d \<in> S \<Longrightarrow> c a b \<le> 0 \<Longrightarrow> c b d \<le> 0 \<Longrightarrow> c a d \<le> 0"
    and x: "x \<in> S"
  shows "set ys \<subseteq> S \<Longrightarrow> sorted_wrt (\<lambda>a b. c a b \<le> 0) ys \<Longrightarrow>
         sorted_wrt (\<lambda>a b. c a b \<le> 0) (insertSorted c x ys)"
proof (induction ys)
  case Nil
  show ?case by simp
next
  case (Cons y ys)
  from Cons.prems(1) have y: "y \<in> S" and ys: "set ys \<subseteq> S" by simp_all
  from Cons.prems(2) have sys: "sorted_wrt (\<lambda>a b. c a b \<le> 0) ys"
    and yz: "\<And>z. z \<in> set ys \<Longrightarrow> c y z \<le> 0" by simp_all
  show ?case
  proof (cases "c x y \<le> 0")
    case True
    have "c x z \<le> 0" if "z \<in> set ys" for z
    proof -
      from that ys have "z \<in> S" by blast
      from tr [OF x y this True yz [OF that]] show ?thesis .
    qed
    with True Cons.prems(2) show ?thesis by simp
  next
    case False
    with tot [OF x y] have yx: "c y x \<le> 0" by simp
    from Cons.IH [OF ys sys] have "sorted_wrt (\<lambda>a b. c a b \<le> 0) (insertSorted c x ys)" .
    with False yx yz show ?thesis by (simp add: set_insertSorted)
  qed
qed

lemma sorted_array_sort:
  assumes tot: "\<And>a b. a \<in> S \<Longrightarrow> b \<in> S \<Longrightarrow> c a b \<le> 0 \<or> c b a \<le> 0"
    and tr: "\<And>a b d. a \<in> S \<Longrightarrow> b \<in> S \<Longrightarrow> d \<in> S \<Longrightarrow> c a b \<le> 0 \<Longrightarrow> c b d \<le> 0 \<Longrightarrow> c a d \<le> 0"
  shows "set xs \<subseteq> S \<Longrightarrow> sorted_wrt (\<lambda>a b. c a b \<le> 0) (array_sort c xs)"
proof (induction xs)
  case Nil
  show ?case by (simp add: array_sort_def)
next
  case (Cons x xs)
  from Cons.prems have x: "x \<in> S" and xs: "set xs \<subseteq> S" by simp_all
  have "set (array_sort c xs) = set xs"
    by (metis mset_array_sort set_mset_mset)
  with xs have sub: "set (array_sort c xs) \<subseteq> S" by simp
  from sorted_insertSorted [of S c x, OF tot tr x sub Cons.IH [OF xs]]
  show ?case by (simp add: array_sort_def)
qed

lemma sorted_wrt_unique:
  assumes "sorted_wrt R xs" "sorted_wrt R ys" "mset xs = mset ys"
    and antisym: "\<forall>a \<in> set xs. \<forall>b \<in> set xs. R a b \<longrightarrow> R b a \<longrightarrow> a = b"
  shows "xs = ys"
  using assms
proof (induction xs arbitrary: ys)
  case Nil
  then show ?case by simp
next
  case (Cons x xs)
  from Cons.prems(3) obtain y ys' where ys: "ys = y # ys'" by (cases ys) auto
  have sets: "set (x # xs) = set ys" using Cons.prems(3) by (metis set_mset_mset)
  have xy: "x = y"
  proof (rule ccontr)
    assume ne: "x \<noteq> y"
    from sets ys ne have "x \<in> set ys'" by auto
    with Cons.prems(2) ys have 1: "R y x" by simp
    from sets ys ne have "y \<in> set xs" by auto
    with Cons.prems(1) have 2: "R x y" by simp
    from sets ys have "y \<in> set (x # xs)" by auto
    with Cons.prems(4) 1 2 have "x = y" by (meson list.set_intros(1))
    with ne show False by simp
  qed
  have "xs = ys'"
  proof (rule Cons.IH)
    show "sorted_wrt R xs" using Cons.prems(1) by simp
    show "sorted_wrt R ys'" using Cons.prems(2) ys by simp
    show "mset xs = mset ys'" using Cons.prems(3) ys xy by simp
    show "\<forall>a \<in> set xs. \<forall>b \<in> set xs. R a b \<longrightarrow> R b a \<longrightarrow> a = b" using Cons.prems(4) by simp
  qed
  with xy ys show ?case by simp
qed


lemma scanForScripts_keys_sorted:
  assumes tot: "\<And>a b. a \<in> K \<Longrightarrow> b \<in> K \<Longrightarrow> localeCompare a b \<le> 0 \<or> localeCompare b a \<le> 0"
    and tr: "\<And>a b d. a \<in> K \<Longrightarrow> b \<in> K \<Longrightarrow> d \<in> K \<Longrightarrow>
               localeCompare a b \<le> 0 \<Longrightarrow> localeCompare b d \<le> 0 \<Longrightarrow> localeCompare a d \<le> 0"
    and K: "relativePath ` set (collectScripts path statSync roots []) \<subseteq> K"
  shows "sorted_wrt (\<lambda>a b. localeCompare a b \<le> 0)
           (map relativePath (scanForScripts path localeCompare statSync roots))"
proof -
  let ?c = "\<lambda>a b. localeCompare (relativePath a) (relativePath b)"
  let ?S = "{f. relativePath f \<in> K}"
  have "sorted_wrt (\<lambda>a b. ?c a b \<le> 0) (array_sort ?c (collectScripts path statSync roots []))"
  proof (rule sorted_array_sort [where S = ?S])
    show "?c a b \<le> 0 \<or> ?c b a \<le> 0" if "a \<in> ?S" "b \<in> ?S" for a b
      using that tot by simp
    show "?c a d \<le> 0" if "a \<in> ?S" "b \<in> ?S" "d \<in> ?S" "?c a b \<le> 0" "?c b d \<le> 0" for a b d
      using that tr [of "relativePath a" "relativePath b" "relativePath d"] by simp
    show "set (collectScripts path statSync roots []) \<subseteq> ?S" using K by auto
  qed
  then show ?thesis by (simp add: scanForScripts_def sorted_wrt_map)
qed

lemma mset_scanForScripts:
  "mset (scanForScripts path localeCompare statSync roots) = mset (collectScripts path statSync roots [])"
  by (simp add: scanForScripts_def mset_array_sort)

text \<open>
  Claim C2, as stated, fails. The scanner sorts with \<open>localeCompare\<close>, not by code units,
  and the two orders differ on the very names of the claim. Take a root that holds
  \<open>B.as\<close> and \<open>a.as\<close>. Were the comparison function the code-point one, the scan would
  return \<open>B.as\<close> before \<open>a.as\<close>, not after it. With a collation that ranks \<open>a\<close> before
  \<open>B\<close>, as \<open>localeCompare\<close> does, the scan returns \<open>a.as\<close> before \<open>B.as\<close>, a sequence
  that is not sorted by code units.
\<close>

theorem scanForScripts_code_point_counterexample:
  "map relativePath (scanForScripts (posix ''/'') codePointCompare exampleTree [''/proj/Script''])
     = [''B.as'', ''a.as'']
   \<and> map relativePath (scanForScripts (posix ''/'') collationCompare exampleTree [''/proj/Script''])
     = [''a.as'', ''B.as'']
   \<and> \<not> sorted_wrt (\<lambda>a b. codePointCompare a b \<le> 0) [''a.as'', ''B.as'']"
  by code_simp

text \<open>
  Claim C2, amended. Let the comparison function \<open>localeCompare\<close> of the runtime be total
  and transitive on the relative paths collected. Then the sequence \<open>scanForScripts\<close>
  returns is sorted by \<open>relativePath\<close> under that function and is a rearrangement of the
  entries collected. If moreover the function never ranks two different collected paths
  as equal, the sequence of relative paths returned is the same for every file system and
  root list from which the same relative paths are collected: it depends neither on the
  order of enumeration nor on the root that produced an entry.
\<close>

theorem scanForScripts_sorted:
  assumes K: "K = relativePath ` set (collectScripts path statSync roots [])"
    and total: "\<forall>a \<in> K. \<forall>b \<in> K. localeCompare a b \<le> 0 \<or> localeCompare b a \<le> 0"
    and trans: "\<forall>a \<in> K. \<forall>b \<in> K. \<forall>d \<in> K.
                  localeCompare a b \<le> 0 \<longrightarrow> localeCompare b d \<le> 0 \<longrightarrow> localeCompare a d \<le> 0"
  shows "sorted_wrt (\<lambda>a b. localeCompare a b \<le> 0)
           (map relativePath (scanForScripts path localeCompare statSync roots))
       \<and> mset (scanForScripts path localeCompare statSync roots)
           = mset (collectScripts path statSync roots [])
       \<and> ((\<forall>a \<in> K. \<forall>b \<in> K. localeCompare a b \<le> 0 \<longrightarrow> localeCompare b a \<le> 0 \<longrightarrow> a = b) \<longrightarrow>
          (\<forall>statSync' roots'.
             mset (map relativePath (collectScripts path statSync' roots' []))
               = mset (map relativePath (collectScripts path statSync roots [])) \<longrightarrow>
             map relativePath (scanForScripts path localeCompare statSync' roots')
               = map relativePath (scanForScripts path localeCompare statSync roots)))"
proof -
  have tot: "localeCompare a b \<le> 0 \<or> localeCompare b a \<le> 0" if "a \<in> K" "b \<in> K" for a b
    using total that by blast
  have tr: "localeCompare a d \<le> 0"
    if "a \<in> K" "b \<in> K" "d \<in> K" "localeCompare a b \<le> 0" "localeCompare b d \<le> 0" for a b d
    using trans that by blast
  have sorted: "sorted_wrt (\<lambda>a b. localeCompare a b \<le> 0)
           (map relativePath (scanForScripts path localeCompare statSync roots))"
  proof (rule scanForScripts_keys_sorted [where K = K])
    show "relativePath ` set (collectScripts path statSync roots []) \<subseteq> K" by (simp add: K)
  qed (fact tot, fact tr)
  have keys: "set (map relativePath (scanForScripts path localeCompare statSync roots)) = K"
    by (metis K mset_scanForScripts set_map set_mset_mset)
  have indep: "map relativePath (scanForScripts path localeCompare statSync' roots')
               = map relativePath (scanForScripts path localeCompare statSync roots)"
    if anti: "\<forall>a \<in> K. \<forall>b \<in> K. localeCompare a b \<le> 0 \<longrightarrow> localeCompare b a \<le> 0 \<longrightarrow> a = b"
      and same: "mset (map relativePath (collectScripts path statSync' roots' []))
               = mset (map relativePath (collectScripts path statSync roots []))"
    for statSync' roots'
  proof -
    from same have "set (map relativePath (collectScripts path statSync' roots' []))
        = set (map relativePath (collectScripts path statSync roots []))"
      by (metis set_mset_mset)
    then have K': "relativePath ` set (collectScripts path statSync' roots' []) \<subseteq> K"
      by (simp add: K)
    have sorted': "sorted_wrt (\<lambda>a b. localeCompare a b \<le> 0)
           (map relativePath (scanForScripts path localeCompare statSync' roots'))"
      by (rule scanForScripts_keys_sorted [where K = K]) (fact tot, fact tr, fact K')
    have m: "mset (map relativePath (scanForScripts path localeCompare statSync roots))
           = mset (map relativePath (scanForScripts path localeCompare statSync' roots'))"
      using same by (simp add: mset_scanForScripts)
    from sorted sorted' m show ?thesis
    proof (rule sorted_wrt_unique [symmetric])
      show "\<forall>a \<in> set (map relativePath (scanForScripts path localeCompare statSync roots)).
              \<forall>b \<in> set (map relativePath (scanForScripts path localeCompare statSync roots)).
                localeCompare a b \<le> 0 \<longrightarrow> localeCompare b a \<le> 0 \<longrightarrow> a = b"
        unfolding keys by (rule anti)
    qed
  qed
  from sorted mset_scanForScripts indep show ?thesis by blast
qed


text \<open>
  Witness for the amended C2, under the collation: the root with \<open>B.as\<close> enumerated
  before \<open>a.as\<close>, and the two roots that hold one of the files each, both give \<open>a.as\<close>
  then \<open>B.as\<close>.
\<close>

theorem scanForScripts_sorted_witness:
  "sorted_wrt (\<lambda>a b. collationCompare a b \<le> 0)
     (map relativePath (scanForScripts (posix ''/'') collationCompare exampleTree [''/proj/Script'']))
   \<and> mset (scanForScripts (posix ''/'') collationCompare exampleTree [''/proj/Script''])
       = mset (collectScripts (posix ''/'') exampleTree [''/proj/Script''] [])
   \<and> map relativePath (scanForScripts (posix ''/'') collationCompare exampleTwoRoots [''/x/One'', ''/x/Two''])
       = map relativePath (scanForScripts (posix ''/'') collationCompare exampleTree [''/proj/Script''])
   \<and> map relativePath (scanForScripts (posix ''/'') collationCompare exampleTree [''/proj/Script''])
       = [''a.as'', ''B.as'']"
proof -
  let ?K = "{''B.as'', ''a.as''}"
  have col: "map relativePath (collectScripts (posix ''/'') exampleTree [''/proj/Script''] [])
               = [''B.as'', ''a.as'']"
    by code_simp
  have col2: "map relativePath (collectScripts (posix ''/'') exampleTwoRoots [''/x/One'', ''/x/Two''] [])
               = [''a.as'', ''B.as'']"
    by code_simp
  have K: "?K = relativePath ` set (collectScripts (posix ''/'') exampleTree [''/proj/Script''] [])"
    using arg_cong [OF col, of set] by simp
  have c: "collationCompare ''a.as'' ''B.as'' = - 1" "collationCompare ''B.as'' ''a.as'' = 1"
    "collationCompare ''a.as'' ''a.as'' = 0" "collationCompare ''B.as'' ''B.as'' = 0"
    by code_simp+
  have total: "\<forall>a \<in> ?K. \<forall>b \<in> ?K. collationCompare a b \<le> 0 \<or> collationCompare b a \<le> 0"
    by (simp add: c)
  have trans: "\<forall>a \<in> ?K. \<forall>b \<in> ?K. \<forall>d \<in> ?K.
      collationCompare a b \<le> 0 \<longrightarrow> collationCompare b d \<le> 0 \<longrightarrow> collationCompare a d \<le> 0"
    by (simp add: c)
  have anti: "\<forall>a \<in> ?K. \<forall>b \<in> ?K. collationCompare a b \<le> 0 \<longrightarrow> collationCompare b a \<le> 0 \<longrightarrow> a = b"
    by (simp add: c)
  have same: "mset (map relativePath (collectScripts (posix ''/'') exampleTwoRoots [''/x/One'', ''/x/Two''] []))
      = mset (map relativePath (collectScripts (posix ''/'') exampleTree [''/proj/Script''] []))"
    unfolding col col2 by simp
  have val: "map relativePath (scanForScripts (posix ''/'') collationCompare exampleTree [''/proj/Script''])
       = [''a.as'', ''B.as'']"
    by code_simp
  from scanForScripts_sorted [OF K total trans] anti same val show ?thesis by blast
qed

section \<open>Properties of the search tool\<close>

lemma getScriptRoots_configured:
  "configured config \<Longrightarrow> getScriptRoots path config \<noteq> []"
  by (simp add: getScriptRoots_def GAME_SCRIPT_DIRS_def ENGINE_SCRIPT_DIRS_def)

text \<open>
  Claim C9, as stated, fails. The handler tests the configuration before it compiles the
  pattern: with no project path the invalid pattern \<open>(\<close> is answered by the error about
  the project path, and the pattern is never looked at.
\<close>

theorem as_search_scripts_wrong_error_counterexample:
  "host_RegExp exampleHost ''('' = Inl ''Invalid regular expression: /(/: Unterminated group''
   \<and> fst (as_search_scripts exampleHost unconfigured ''('' 2 20) =
       ''Error: Project path not configured. Please set the UE_AS_PROJECT_PATH environment variable.''
   \<and> fst (as_search_scripts exampleHost unconfigured ''('' 2 20) \<noteq>
       ''Error: Invalid regex pattern: '' @ ''Invalid regular expression: /(/: Unterminated group''"
  by (simp add: exampleHost_def unconfigured_def as_search_scripts_def configured_def)

text \<open>
  Claim C9, amended. For a pattern that \<open>RegExp\<close> rejects, the handler calls neither
  \<open>scanForScripts\<close> nor \<open>readFileSync\<close>, whatever the configuration; and when the project
  path is configured its response is the error \<open>Invalid regex pattern\<close> with the message
  of the rejection, returned before any such call.
\<close>

theorem as_search_scripts_invalid_pattern:
  assumes invalid: "host_RegExp h pattern = Inl message"
  shows "snd (as_search_scripts h config pattern context_lines max_results) = []
       \<and> (configured config \<longrightarrow>
            as_search_scripts h config pattern context_lines max_results
              = (''Error: Invalid regex pattern: '' @ message, []))"
proof (cases "configured config")
  case False
  then show ?thesis by (simp add: as_search_scripts_def)
next
  case True
  then have "length (getScriptRoots (host_path h) config) \<noteq> 0"
    using getScriptRoots_configured [of config "host_path h"] by simp
  with True invalid show ?thesis
    by (simp add: as_search_scripts_def Let_def)
qed

text \<open>
  Witness for the amended C9: the pattern \<open>(\<close> with and without a configured project,
  beside a valid pattern, for which the scan and the two reads are recorded.
\<close>

theorem as_search_scripts_invalid_pattern_witness:
  "as_search_scripts exampleHost exampleConfig ''('' 2 20 =
     (''Error: Invalid regex pattern: Invalid regular expression: /(/: Unterminated group'', [])
   \<and> snd (as_search_scripts exampleHost unconfigured ''('' 2 20) = []
   \<and> snd (as_search_scripts exampleHost exampleConfig ''l5'' 1 20) =
       [ScanForScripts [''/proj/Script'', ''/proj/Scripts''],
        ReadFileSync ''/proj/Script/a.as'', ReadFileSync ''/proj/Script/B.as'']"
proof -
  have inv: "host_RegExp exampleHost ''('' = Inl ''Invalid regular expression: /(/: Unterminated group''"
    by (simp add: exampleHost_def)
  have cfg: "configured exampleConfig" by (simp add: configured_def exampleConfig_def)
  have valid: "snd (as_search_scripts exampleHost exampleConfig ''l5'' 1 20) =
       [ScanForScripts [''/proj/Script'', ''/proj/Scripts''],
        ReadFileSync ''/proj/Script/a.as'', ReadFileSync ''/proj/Script/B.as'']"
    by code_simp
  from as_search_scripts_invalid_pattern [OF inv, of exampleConfig 2 20] cfg
    as_search_scripts_invalid_pattern [OF inv, of unconfigured 2 20] valid
  show ?thesis by simp
qed

end
